theory Spec2Isabelle
  imports Complex_Main "HOL-Library.Char_ord" "HOL-Library.List_Lexorder" "HOL-Library.Multiset"
begin

section \<open>Python strings\<close>

text \<open>
  A Python \<open>str\<close> is modelled as a \<open>string\<close> whose characters are ASCII code points;
  file names and titles with characters beyond ASCII are outside the model (their case
  mapping and digit classes are Unicode tables).  Every function below follows the
  CPython behaviour of the method it is named after on ASCII input.
\<close>

definition isspace :: "char \<Rightarrow> bool" where
  \<comment> \<open>\<open>str.isspace\<close>, \<open>\s\<close>: TAB, LF, VT, FF, CR, FS, GS, RS, US and the blank\<close>
  "isspace c = (c \<in> set [CHR 0x09, CHR 0x0A, CHR 0x0B, CHR 0x0C, CHR 0x0D,
                          CHR 0x1C, CHR 0x1D, CHR 0x1E, CHR 0x1F, CHR '' ''])"

definition isdecimal :: "char \<Rightarrow> bool" where
  \<comment> \<open>\<open>\d\<close> and \<open>str.isdigit\<close> on ASCII\<close>
  "isdecimal c = (c \<in> set ''0123456789'')"

definition ascii_lowercase :: string where
  "ascii_lowercase = ''abcdefghijklmnopqrstuvwxyz''"

definition ascii_uppercase :: string where
  "ascii_uppercase = ''ABCDEFGHIJKLMNOPQRSTUVWXYZ''"

definition islower :: "char \<Rightarrow> bool" where
  "islower c = (c \<in> set ascii_lowercase)"

definition isupper :: "char \<Rightarrow> bool" where
  "isupper c = (c \<in> set ascii_uppercase)"

definition char_lower :: "char \<Rightarrow> char" where
  "char_lower c = (case map_of (zip ascii_uppercase ascii_lowercase) c of
                     Some l \<Rightarrow> l | None \<Rightarrow> c)"

definition char_upper :: "char \<Rightarrow> char" where
  "char_upper c = (case map_of (zip ascii_lowercase ascii_uppercase) c of
                     Some u \<Rightarrow> u | None \<Rightarrow> c)"

definition lower :: "string \<Rightarrow> string" where
  \<comment> \<open>\<open>str.lower\<close>\<close>
  "lower s = map char_lower s"

definition strip :: "string \<Rightarrow> string" where
  \<comment> \<open>\<open>str.strip()\<close>: whitespace removed at both ends\<close>
  "strip s = rev (dropWhile isspace (rev (dropWhile isspace s)))"

fun split_ws :: "string \<Rightarrow> string \<Rightarrow> string list" where
  \<comment> \<open>\<open>str.split()\<close> without a separator: the maximal runs of non-whitespace; the first
      argument is the word read so far, reversed\<close>
  "split_ws w [] = (if w = [] then [] else [rev w])"
| "split_ws w (c # cs) =
     (if isspace c then (if w = [] then split_ws [] cs else rev w # split_ws [] cs)
      else split_ws (c # w) cs)"

fun join :: "string \<Rightarrow> string list \<Rightarrow> string" where
  \<comment> \<open>\<open>sep.join(words)\<close>\<close>
  "join sep [] = []"
| "join sep [w] = w"
| "join sep (w # v # ws) = w @ sep @ join sep (v # ws)"

fun replace_char :: "char \<Rightarrow> char \<Rightarrow> string \<Rightarrow> string" where
  \<comment> \<open>\<open>str.replace(old, new)\<close> for one-character \<open>old\<close> and \<open>new\<close>\<close>
  "replace_char old new s = map (\<lambda>c. if c = old then new else c) s"

fun title_from :: "bool \<Rightarrow> string \<Rightarrow> string" where
  \<comment> \<open>\<open>str.title()\<close>; the flag is CPython's \<open>previous_is_cased\<close>\<close>
  "title_from prev [] = []"
| "title_from prev (c # cs) =
     (if islower c \<or> isupper c
      then (if prev then char_lower c else char_upper c) # title_from True cs
      else c # title_from False cs)"

definition title_case :: "string \<Rightarrow> string" where
  "title_case s = title_from False s"

fun str_nat :: "nat \<Rightarrow> string" where
  \<comment> \<open>the decimal rendering of a non-negative Python \<open>int\<close>\<close>
  "str_nat n =
     (if n < 10 then [''0123456789'' ! n]
      else str_nat (n div 10) @ [''0123456789'' ! (n mod 10)])"

declare str_nat.simps [simp del]

definition str_int :: "int \<Rightarrow> string" where
  \<comment> \<open>\<open>str(i)\<close> of a Python \<open>int\<close>\<close>
  "str_int i = (if i < 0 then CHR ''-'' # str_nat (nat (- i)) else str_nat (nat i))"

section \<open>Paths\<close>

fun split_on :: "char \<Rightarrow> string \<Rightarrow> string \<Rightarrow> string list" where
  \<comment> \<open>\<open>str.split(sep)\<close> for a one-character separator; the second argument is the piece
      read so far, reversed\<close>
  "split_on sep w [] = [rev w]"
| "split_on sep w (c # cs) =
     (if c = sep then rev w # split_on sep [] cs else split_on sep (c # w) cs)"

definition path_parts :: "string \<Rightarrow> string list" where
  \<comment> \<open>the components of a POSIX \<open>pathlib.Path\<close>: the pieces between slashes, the empty
      ones and the \<open>.\<close> ones dropped\<close>
  "path_parts p = filter (\<lambda>q. q \<noteq> [] \<and> q \<noteq> ''.'') (split_on CHR ''/'' [] p)"

definition path_name :: "string \<Rightarrow> string" where
  \<comment> \<open>\<open>Path(p).name\<close>: the last component, empty when there is none\<close>
  "path_name p = (case path_parts p of [] \<Rightarrow> [] | q # qs \<Rightarrow> last (q # qs))"

definition suffix_index :: "string \<Rightarrow> nat option" where
  \<comment> \<open>\<open>i = name.rfind('.')\<close> when \<open>0 < i < len(name) - 1\<close>, the test of \<open>Path.suffix\<close>
      and \<open>Path.stem\<close>\<close>
  "suffix_index name =
     (let k = length (takeWhile (\<lambda>c. c \<noteq> CHR ''.'') (rev name))
      in if k < length name \<and> 0 < length name - 1 - k \<and> 0 < k
         then Some (length name - 1 - k) else None)"

definition path_stem :: "string \<Rightarrow> string" where
  \<comment> \<open>\<open>Path(p).stem\<close>\<close>
  "path_stem p =
     (let name = path_name p
      in case suffix_index name of Some i \<Rightarrow> take i name | None \<Rightarrow> name)"

definition path_suffix :: "string \<Rightarrow> string" where
  \<comment> \<open>\<open>Path(p).suffix\<close>\<close>
  "path_suffix p =
     (let name = path_name p
      in case suffix_index name of Some i \<Rightarrow> drop i name | None \<Rightarrow> [])"

definition basename :: "string \<Rightarrow> string" where
  \<comment> \<open>\<open>os.path.basename\<close>: what follows the last slash\<close>
  "basename p = last (split_on CHR ''/'' [] p)"

section \<open>The regular expressions of the title deriver\<close>

text \<open>
  The two patterns of \<open>derive_chapter_title\<close> use literals, alternation, sequence and
  greedy repetition of a character class.  \<open>rmatch\<close> is a backtracking matcher in the
  order Python's \<open>re\<close> tries the alternatives: it returns what is left of the input after
  each way of matching, the way tried first at the head.
\<close>

datatype regex =
    Lit string
  | Alt regex regex
  | Seq regex regex
  | Star "char \<Rightarrow> bool"
  | Plus "char \<Rightarrow> bool"

fun lit_match :: "bool \<Rightarrow> string \<Rightarrow> string \<Rightarrow> string option" where
  \<comment> \<open>a literal at the head of the input; the flag is \<open>re.IGNORECASE\<close>\<close>
  "lit_match ic [] s = Some s"
| "lit_match ic (l # ls) [] = None"
| "lit_match ic (l # ls) (c # cs) =
     (if (if ic then char_lower l = char_lower c else l = c) then lit_match ic ls cs else None)"

fun star_rests :: "(char \<Rightarrow> bool) \<Rightarrow> string \<Rightarrow> string list" where
  \<comment> \<open>greedy repetition: the longest run first, then each shorter one\<close>
  "star_rests p [] = [[]]"
| "star_rests p (c # cs) = (if p c then star_rests p cs @ [c # cs] else [c # cs])"

fun rmatch :: "bool \<Rightarrow> regex \<Rightarrow> string \<Rightarrow> string list" where
  "rmatch ic (Lit l) s = (case lit_match ic l s of Some r \<Rightarrow> [r] | None \<Rightarrow> [])"
| "rmatch ic (Alt a b) s = rmatch ic a s @ rmatch ic b s"
| "rmatch ic (Seq a b) s = concat (map (rmatch ic b) (rmatch ic a s))"
| "rmatch ic (Star p) s = star_rests p s"
| "rmatch ic (Plus p) s = (case s of [] \<Rightarrow> [] | c # cs \<Rightarrow> if p c then star_rests p cs else [])"

definition re_sub_start :: "bool \<Rightarrow> regex \<Rightarrow> string \<Rightarrow> string" where
  \<comment> \<open>\<open>re.sub('^' + pattern, '', s)\<close>: without \<open>re.MULTILINE\<close> the anchor matches at the
      start only, so the first successful match there is removed, if there is one\<close>
  "re_sub_start ic r s = (case rmatch ic r s of [] \<Rightarrow> s | rest # _ \<Rightarrow> rest)"

definition is_sep :: "char \<Rightarrow> bool" where
  \<comment> \<open>the class \<open>[\s\-_]\<close>\<close>
  "is_sep c = (isspace c \<or> c = CHR ''-'' \<or> c = CHR ''_'')"

definition prefix_pattern :: regex where
  \<comment> \<open>\<open>(chapter|ch|part|pt)[\s\-_]*\d*[\s\-_]*\<close>\<close>
  "prefix_pattern =
     Seq (Alt (Lit ''chapter'') (Alt (Lit ''ch'') (Alt (Lit ''part'') (Lit ''pt''))))
         (Seq (Star is_sep) (Seq (Star isdecimal) (Star is_sep)))"

definition number_pattern :: regex where
  \<comment> \<open>\<open>\d+[\s\-_]*\<close>\<close>
  "number_pattern = Seq (Plus isdecimal) (Star is_sep)"

section \<open>Title deriver\<close>

definition clean_stem :: "string \<Rightarrow> string" where
  \<comment> \<open>the four rewriting steps of \<open>derive_chapter_title\<close> on the file stem\<close>
  "clean_stem filename =
     (let cleaned = re_sub_start True prefix_pattern filename;
          cleaned = re_sub_start False number_pattern cleaned;
          cleaned = replace_char CHR ''-'' CHR '' '' (replace_char CHR ''_'' CHR '' '' cleaned);
          cleaned = join '' '' (split_ws [] cleaned)
      in cleaned)"

definition derive_chapter_title :: "string \<Rightarrow> int \<Rightarrow> string \<Rightarrow> string" where
  \<comment> \<open>\<open>combiner.derive_chapter_title(file_path, index, existing_title)\<close>\<close>
  "derive_chapter_title file_path index existing_title =
     (if strip existing_title \<noteq> [] then strip existing_title
      else let cleaned = clean_stem (path_stem file_path)
           in if cleaned \<noteq> [] then title_case cleaned
              else ''Chapter '' @ str_int index)"

definition derive_chapter_title_script :: "string \<Rightarrow> int \<Rightarrow> string \<Rightarrow> string" where
  \<comment> \<open>\<open>derive_chapter_title\<close> of the stand-alone script \<open>combine-m4b-chapters.py\<close>\<close>
  "derive_chapter_title_script file_path index existing_title =
     (if existing_title \<noteq> [] then existing_title
      else let cleaned = clean_stem (path_stem file_path)
           in if cleaned \<noteq> [] then ''Chapter '' @ str_int index @ '': '' @ title_case cleaned
              else ''Chapter '' @ str_int index)"

section \<open>Natural sort\<close>

datatype key_part = Text string | Number nat

fun re_split_digits :: "bool \<Rightarrow> string \<Rightarrow> string \<Rightarrow> string list" where
  \<comment> \<open>\<open>re.split(r'(\d+)', filename)\<close>: the pieces between the digit runs and the digit runs
      themselves, in turn.  The flag says whether a digit run is being read, the second
      argument is the piece read so far, reversed.  A text piece follows the last digit run
      even when it is empty.\<close>
  "re_split_digits d w [] = (if d then [rev w, []] else [rev w])"
| "re_split_digits d w (c # cs) =
     (if isdecimal c = d then re_split_digits d (c # w) cs
      else rev w # re_split_digits (\<not> d) [c] cs)"

definition digit_value :: "char \<Rightarrow> nat" where
  "digit_value c = of_char c - 48"

definition int_of_digits :: "string \<Rightarrow> nat" where
  \<comment> \<open>\<open>int(text)\<close> for a string of decimal digits\<close>
  "int_of_digits t = foldl (\<lambda>n c. 10 * n + digit_value c) 0 t"

definition isdigit :: "string \<Rightarrow> bool" where
  \<comment> \<open>\<open>text.isdigit()\<close>: non-empty and digits only\<close>
  "isdigit t = (t \<noteq> [] \<and> list_all isdecimal t)"

definition natural_sort_key :: "string \<Rightarrow> key_part list" where
  "natural_sort_key filename =
     map (\<lambda>text. if isdigit text then Number (int_of_digits text) else Text (lower text))
         (re_split_digits False [] filename)"

text \<open>
  Python compares two keys as lists: the first index at which they differ decides, and a
  proper prefix is smaller.  Two numbers compare as integers and two strings by code
  points.  A number against a string raises \<open>TypeError\<close>; in a key of
  \<open>natural_sort_key\<close> the strings are at the even indices and the numbers at the odd ones
  (\<open>natural_sort_key_shape\<close> below), so that comparison never happens between two such
  keys, and the order given to it here (numbers first) is never consulted.
\<close>

instantiation key_part :: linorder
begin

fun less_eq_key_part :: "key_part \<Rightarrow> key_part \<Rightarrow> bool" where
  "less_eq_key_part (Number m) (Number n) = (m \<le> n)"
| "less_eq_key_part (Text s) (Text t) = (s \<le> t)"
| "less_eq_key_part (Number m) (Text t) = True"
| "less_eq_key_part (Text s) (Number n) = False"

definition less_key_part :: "key_part \<Rightarrow> key_part \<Rightarrow> bool" where
  "less_key_part a b = (a \<le> b \<and> \<not> b \<le> a)"

instance
proof
  fix x y z :: key_part
  show "(x < y) = (x \<le> y \<and> \<not> y \<le> x)"
    by (simp add: less_key_part_def)
  show "x \<le> x"
    by (cases x) simp_all
  show "x \<le> y \<Longrightarrow> y \<le> z \<Longrightarrow> x \<le> z"
    by (cases x; cases y; cases z) auto
  show "x \<le> y \<Longrightarrow> y \<le> x \<Longrightarrow> x = y"
    by (cases x; cases y) auto
  show "x \<le> y \<or> y \<le> x"
    by (cases x; cases y) auto
qed

end

fun alternating :: "bool \<Rightarrow> key_part list \<Rightarrow> bool" where
  \<comment> \<open>strings and numbers in turn; the flag says that a number comes first\<close>
  "alternating b [] = True"
| "alternating b (Text s # ks) = (\<not> b \<and> alternating True ks)"
| "alternating b (Number n # ks) = (b \<and> alternating False ks)"

definition natural_sort :: "string list \<Rightarrow> string list" where
  \<comment> \<open>\<open>m4b_files.sort(key=lambda x: natural_sort_key(os.path.basename(x)))\<close>;
      \<open>list.sort\<close> is stable, as \<open>sort_key\<close> is\<close>
  "natural_sort files = sort_key (\<lambda>x. natural_sort_key (basename x)) files"

section \<open>Chapters and probed metadata\<close>

text \<open>
  Times are Python floats in the source.  They are modelled as real numbers, the values of
  the doubles: the rounding of IEEE doubles is not part of the model.  Where a product of
  floats is cut to an integer (the chapter table encoder), the multiplication of floats is
  an operation given to the model.
\<close>

record chapter_span =
  ch_title :: string
  ch_start :: real
  ch_end :: real

record probed_chapter = chapter_span +
  ch_duration :: real

record audio_metadata =
  \<comment> \<open>the dictionary of \<open>get_audio_metadata\<close>, with the \<open>file_path\<close> that
      \<open>combine_m4b_files\<close> adds to it\<close>
  md_file_path :: string
  md_duration :: real
  md_title :: string
  md_artist :: string
  md_album :: string
  md_codec :: string
  md_sample_rate :: string
  md_channels :: int

record manifest_entry =
  entry_file :: string
  entry_title :: string

definition py_or :: "string \<Rightarrow> string \<Rightarrow> string" where
  \<comment> \<open>\<open>a or b\<close> on strings: the empty string is false\<close>
  "py_or a b = (if a \<noteq> [] then a else b)"

definition opt_or :: "string option \<Rightarrow> string \<Rightarrow> string" where
  \<comment> \<open>\<open>a or b\<close> where \<open>a\<close> may be \<open>None\<close>\<close>
  "opt_or a b = (case a of None \<Rightarrow> b | Some v \<Rightarrow> py_or v b)"

section \<open>Chapter synthesis\<close>

definition csv_title_of :: "bool \<Rightarrow> manifest_entry list \<Rightarrow> string \<Rightarrow> string" where
  \<comment> \<open>the title of the first manifest entry for this file, when a manifest is in use\<close>
  "csv_title_of csv_given file_title_list path =
     (if csv_given
      then (case find (\<lambda>item. entry_file item = path) file_title_list of
              Some item \<Rightarrow> entry_title item | None \<Rightarrow> [])
      else [])"

definition file_chapters ::
  "bool \<Rightarrow> manifest_entry list \<Rightarrow> bool \<Rightarrow> (string \<Rightarrow> probed_chapter list) \<Rightarrow>
   nat \<Rightarrow> real \<Rightarrow> audio_metadata \<Rightarrow> chapter_span list" where
  \<comment> \<open>the body of the chapter loop of \<open>combine_m4b_files\<close> for file number \<open>i\<close> at
      \<open>current_time\<close>; \<open>existing\<close> is what \<open>extract_existing_chapters\<close> returns\<close>
  "file_chapters csv_given file_title_list preserve_existing_chapters existing i current_time
     file_meta =
     (let csv_title = csv_title_of csv_given file_title_list (md_file_path file_meta);
          base_title = py_or csv_title
            (derive_chapter_title (md_file_path file_meta) (int i) (md_title file_meta));
          whole = \<lparr>ch_title = base_title, ch_start = current_time,
                   ch_end = current_time + md_duration file_meta\<rparr>
      in if preserve_existing_chapters
         then (let existing_chapters = existing (md_file_path file_meta)
               in if existing_chapters \<noteq> []
                  then map (\<lambda>c. \<lparr>ch_title = base_title @ '' - '' @ ch_title c,
                                  ch_start = current_time + ch_start c,
                                  ch_end = current_time + ch_end c\<rparr>) existing_chapters
                  else [whole])
         else [whole])"

fun generate_chapters ::
  "bool \<Rightarrow> manifest_entry list \<Rightarrow> bool \<Rightarrow> (string \<Rightarrow> probed_chapter list) \<Rightarrow>
   nat \<Rightarrow> real \<Rightarrow> audio_metadata list \<Rightarrow> chapter_span list" where
  \<comment> \<open>the chapter loop from file number \<open>i\<close> and \<open>current_time\<close> on\<close>
  "generate_chapters csv_given fl preserve existing i current_time [] = []"
| "generate_chapters csv_given fl preserve existing i current_time (file_meta # rest) =
     file_chapters csv_given fl preserve existing i current_time file_meta
     @ generate_chapters csv_given fl preserve existing (Suc i)
         (current_time + md_duration file_meta) rest"

definition synthesize ::
  "bool \<Rightarrow> manifest_entry list \<Rightarrow> bool \<Rightarrow> (string \<Rightarrow> probed_chapter list) \<Rightarrow>
   audio_metadata list \<Rightarrow> chapter_span list" where
  \<comment> \<open>the loop as \<open>combine_m4b_files\<close> runs it: \<open>enumerate(files_metadata, 1)\<close> and
      \<open>current_time = 0.0\<close>\<close>
  "synthesize csv_given fl preserve existing files_metadata =
     generate_chapters csv_given fl preserve existing 1 0 files_metadata"

section \<open>The invariant of a chapter list\<close>

fun contiguous :: "'a chapter_span_scheme list \<Rightarrow> bool" where
  \<comment> \<open>no gap and no overlap: each span ends where the next one starts\<close>
  "contiguous [] = True"
| "contiguous [c] = True"
| "contiguous (c # d # cs) = (ch_end c = ch_start d \<and> contiguous (d # cs))"

definition span_ordered :: "bool \<Rightarrow> 'a chapter_span_scheme \<Rightarrow> bool" where
  \<comment> \<open>\<open>start < end\<close>, or \<open>start \<le> end\<close> when the flag is off\<close>
  "span_ordered strict c = (if strict then ch_start c < ch_end c else ch_start c \<le> ch_end c)"

definition span_invariant :: "bool \<Rightarrow> 'a chapter_span_scheme list \<Rightarrow> bool" where
  \<comment> \<open>the invariant the data model states for an ordered chapter list (with the flag on):
      \<open>start < end\<close> in every span, the first span starts at 0, adjacent spans meet\<close>
  "span_invariant strict cs =
     (list_all (span_ordered strict) cs
      \<and> (case cs of [] \<Rightarrow> True | c # _ \<Rightarrow> ch_start c = 0)
      \<and> contiguous cs)"

fun chain :: "real \<Rightarrow> 'a chapter_span_scheme list \<Rightarrow> real \<Rightarrow> bool" where
  \<comment> \<open>the spans lead from one time to another without gap or overlap\<close>
  "chain t [] e = (t = e)"
| "chain t (c # cs) e = (ch_start c = t \<and> chain (ch_end c) cs e)"

definition embedded_ok :: "bool \<Rightarrow> audio_metadata \<Rightarrow> probed_chapter list \<Rightarrow> bool" where
  \<comment> \<open>the embedded chapters of a track, when it has some, cover the track: they lead
      from 0 to its duration, each of them ordered\<close>
  "embedded_ok strict file_meta existing_chapters =
     (existing_chapters = []
      \<or> (chain 0 existing_chapters (md_duration file_meta)
          \<and> list_all (span_ordered strict) existing_chapters))"

definition duration_ok :: "bool \<Rightarrow> audio_metadata \<Rightarrow> bool" where
  "duration_ok strict file_meta =
     (if strict then 0 < md_duration file_meta else 0 \<le> md_duration file_meta)"

section \<open>Errors\<close>

datatype py_error =
    FileNotFoundError
  | ValueError string
  | AttributeError
  | TypeError
  | CalledProcessError
  | JSONDecodeError
  | KeyboardInterrupt
  | RuntimeError

section \<open>Choosing the input files and the book metadata\<close>

definition accepted_container :: "string \<Rightarrow> bool" where
  \<comment> \<open>\<open>Path(f).suffix.lower() in {'.m4b', '.m4a'}\<close>\<close>
  "accepted_container f = (lower (path_suffix f) \<in> set [''.m4b'', ''.m4a''])"

definition truthy :: "string option \<Rightarrow> bool" where
  \<comment> \<open>the truth value of an optional string: \<open>None\<close> and the empty string are false\<close>
  "truthy a = (case a of None \<Rightarrow> False | Some v \<Rightarrow> v \<noteq> [])"

record combine_inputs =
  ci_m4b_files :: "string list"
  ci_file_title_list :: "manifest_entry list"
  ci_csv_metadata :: "string \<rightharpoonup> string"
  ci_output_file :: "string option"
  ci_title :: "string option"

definition select_inputs ::
  "(py_error + manifest_entry list \<times> (string \<rightharpoonup> string)) option \<Rightarrow>
   string option \<Rightarrow> string list \<Rightarrow> (string \<Rightarrow> string) \<Rightarrow> string option \<Rightarrow> string option \<Rightarrow>
   py_error + combine_inputs option" where
  \<comment> \<open>\<open>combine_m4b_files\<close> from the choice between manifest and pattern to the natural
      sort.  \<open>parsed\<close> is the outcome of \<open>parse_csv_input(csv_file)\<close> when \<open>csv_file\<close> is
      given, \<open>matching_files\<close> what \<open>glob.glob(input_pattern)\<close> returns, \<open>abspath\<close> is
      \<open>os.path.abspath\<close>.  \<open>Inr None\<close> is the return of \<open>False\<close>; an exception that the
      function does not catch leaves it (\<open>Inl\<close>).\<close>
  "select_inputs parsed input_pattern matching_files abspath output_file title =
     (case parsed of
        Some (Inl FileNotFoundError) \<Rightarrow> Inr None
      | Some (Inl (ValueError msg)) \<Rightarrow> Inr None
      | Some (Inl e) \<Rightarrow> Inl e
      | _ \<Rightarrow>
          if parsed = None \<and> \<not> truthy input_pattern then Inr None
          else
            let file_title_list =
                  (case parsed of
                     Some (Inr (fl, md)) \<Rightarrow> fl
                   | _ \<Rightarrow> map (\<lambda>f. \<lparr>entry_file = f, entry_title = []\<rparr>)
                            (map abspath (filter accepted_container matching_files)));
                csv_metadata = (case parsed of Some (Inr (fl, md)) \<Rightarrow> md | _ \<Rightarrow> Map.empty);
                m4b_files = map entry_file file_title_list;
                output_file = (case csv_metadata ''output_path'' of
                                 Some p \<Rightarrow> Some p | None \<Rightarrow> output_file);
                title = (if csv_metadata ''title'' \<noteq> None \<and> \<not> truthy title
                         then csv_metadata ''title'' else title)
            in if m4b_files = [] then Inr None
               else if \<not> truthy output_file then Inr None
               else Inr (Some \<lparr>ci_m4b_files = natural_sort m4b_files,
                                ci_file_title_list = file_title_list,
                                ci_csv_metadata = csv_metadata,
                                ci_output_file = output_file,
                                ci_title = title\<rparr>))"

definition get_or :: "(string \<rightharpoonup> string) \<Rightarrow> string \<Rightarrow> string \<Rightarrow> string" where
  \<comment> \<open>\<open>d.get(key, default)\<close>\<close>
  "get_or d k dflt = (case d k of None \<Rightarrow> dflt | Some v \<Rightarrow> v)"

definition book_title :: "string option \<Rightarrow> (string \<rightharpoonup> string) \<Rightarrow> audio_metadata \<Rightarrow> string" where
  \<comment> \<open>\<open>title or csv_metadata.get('title') or files_metadata[0].get('album', '')
      or 'Combined Audiobook'\<close>\<close>
  "book_title title csv_metadata first =
     opt_or title (opt_or (csv_metadata ''title'') (py_or (md_album first) ''Combined Audiobook''))"

definition output_metadata ::
  "string option \<Rightarrow> (string \<rightharpoonup> string) \<Rightarrow> audio_metadata \<Rightarrow> (string \<rightharpoonup> string)" where
  \<comment> \<open>the dictionary \<open>output_metadata\<close> of \<open>combine_m4b_files\<close>; \<open>first\<close> is
      \<open>files_metadata[0]\<close>\<close>
  "output_metadata title csv_metadata first =
     map_of
       [(''title'', book_title title csv_metadata first),
        (''artist'', opt_or (csv_metadata ''author'') (md_artist first)),
        (''album'', book_title title csv_metadata first),
        (''author'', get_or csv_metadata ''author'' []),
        (''narrator'', get_or csv_metadata ''narrator'' []),
        (''genre'', get_or csv_metadata ''genre'' ''Audiobook''),
        (''year'', get_or csv_metadata ''year'' []),
        (''description'', get_or csv_metadata ''description'' [])]"

section \<open>Command line\<close>








section \<open>The title rule in the words of the specification\<close>

definition prefix_keywords :: "string list" where
  "prefix_keywords = [''chapter'', ''ch'', ''part'', ''pt'']"

fun first_keyword :: "string list \<Rightarrow> string \<Rightarrow> string option" where
  \<comment> \<open>what follows the first of the keywords that the string starts with, case ignored\<close>
  "first_keyword [] s = None"
| "first_keyword (k # ks) s =
     (case lit_match True k s of Some rest \<Rightarrow> Some rest | None \<Rightarrow> first_keyword ks s)"

definition strip_prefix_token :: "string \<Rightarrow> string" where
  \<comment> \<open>a leading \<open>chapter\<close>, \<open>ch\<close>, \<open>part\<close> or \<open>pt\<close> with the separators and digits after it\<close>
  "strip_prefix_token s =
     (case first_keyword prefix_keywords s of
        None \<Rightarrow> s
      | Some rest \<Rightarrow> dropWhile is_sep (dropWhile isdecimal (dropWhile is_sep rest)))"

definition strip_leading_number :: "string \<Rightarrow> string" where
  \<comment> \<open>a leading run of digits with the separators after it\<close>
  "strip_leading_number s =
     (case s of
        [] \<Rightarrow> []
      | c # cs \<Rightarrow> if isdecimal c then dropWhile is_sep (dropWhile isdecimal cs) else s)"

definition cleaned_title :: "string \<Rightarrow> string" where
  \<comment> \<open>prefix token and leading number stripped, underscores and hyphens replaced by
      blanks, whitespace collapsed\<close>
  "cleaned_title stem =
     join '' '' (split_ws []
       (map (\<lambda>c. if c = CHR ''_'' \<or> c = CHR ''-'' then CHR '' '' else c)
          (strip_leading_number (strip_prefix_token stem))))"

section \<open>Chapter table encoder\<close>

definition nl :: string where
  \<comment> \<open>the line feed\<close>
  "nl = [CHR 0x0A]"









section \<open>Chapter table decoder\<close>















section \<open>Converter\<close>

text \<open>
  The state of a conversion run is the content of the files, by path, and the list of
  transcoder invocations made so far.  The transcoder is outside the program: \<open>ffmpeg\<close>
  gives, for an input path, an output path and the files, whether the process exited
  with success and the files afterwards.  The output path of an input file (the path
  arithmetic of \<open>process_single_file\<close>) is given as \<open>output_path_of\<close>.  The run is the
  sequential one (\<open>max_workers == 1\<close>); directories are not modelled.
\<close>

record run_state =
  rs_files :: "string \<rightharpoonup> string"
  rs_invocations :: "(string \<times> string) list"

definition supported_format :: "string \<Rightarrow> bool" where
  \<comment> \<open>\<open>Path(f).suffix.lower() in SUPPORTED_FORMATS\<close>\<close>
  "supported_format f =
     (lower (path_suffix f) \<in>
        set [''.mp3'', ''.flac'', ''.m4a'', ''.aac'', ''.ogg'', ''.wav'', ''.wma''])"

definition convert_to_m4b ::
  "(string \<Rightarrow> string \<Rightarrow> (string \<rightharpoonup> string) \<Rightarrow> bool \<times> (string \<rightharpoonup> string)) \<Rightarrow>
   string \<Rightarrow> string \<Rightarrow> run_state \<Rightarrow> bool \<times> run_state" where
  \<comment> \<open>one invocation of the transcoder; success needs a zero exit status and an output
      file that exists and is not empty\<close>
  "convert_to_m4b ffmpeg input_file output_file st =
     (let (exit_ok, files') = ffmpeg input_file output_file (rs_files st);
          st' = \<lparr>rs_files = files',
                 rs_invocations = rs_invocations st @ [(input_file, output_file)]\<rparr>
      in (exit_ok \<and> (case files' output_file of None \<Rightarrow> False | Some content \<Rightarrow> content \<noteq> []),
          st'))"

definition process_single_file ::
  "(string \<Rightarrow> string) \<Rightarrow>
   (string \<Rightarrow> string \<Rightarrow> (string \<rightharpoonup> string) \<Rightarrow> bool \<times> (string \<rightharpoonup> string)) \<Rightarrow>
   string \<Rightarrow> run_state \<Rightarrow> (bool \<times> string) \<times> run_state" where
  "process_single_file output_path_of ffmpeg input_file st =
     (let output_path = output_path_of input_file
      in if rs_files st output_path \<noteq> None then ((False, input_file), st)
         else (let (success, st') = convert_to_m4b ffmpeg input_file output_path st
               in ((success, input_file), st')))"

fun convert_loop ::
  "(string \<Rightarrow> string) \<Rightarrow>
   (string \<Rightarrow> string \<Rightarrow> (string \<rightharpoonup> string) \<Rightarrow> bool \<times> (string \<rightharpoonup> string)) \<Rightarrow>
   string list \<Rightarrow> nat \<Rightarrow> nat \<Rightarrow> run_state \<Rightarrow> (nat \<times> nat) \<times> run_state" where
  \<comment> \<open>the loop over \<open>audio_files\<close> with the counters \<open>successful_conversions\<close> and
      \<open>completed_files\<close> of \<open>update_counters\<close>\<close>
  "convert_loop output_path_of ffmpeg [] successful_conversions completed_files st =
     ((successful_conversions, completed_files), st)"
| "convert_loop output_path_of ffmpeg (input_file # rest) successful_conversions completed_files st =
     (let ((success, _), st') = process_single_file output_path_of ffmpeg input_file st
      in convert_loop output_path_of ffmpeg rest
           (if success then successful_conversions + 1 else successful_conversions)
           (completed_files + 1) st')"

definition convert_all_to_m4b ::
  "bool \<Rightarrow> (string \<Rightarrow> string) \<Rightarrow>
   (string \<Rightarrow> string \<Rightarrow> (string \<rightharpoonup> string) \<Rightarrow> bool \<times> (string \<rightharpoonup> string)) \<Rightarrow>
   string list \<Rightarrow> run_state \<Rightarrow> (nat \<times> nat) \<times> run_state" where
  \<comment> \<open>\<open>(successful_conversions, total_files)\<close> and the state afterwards; \<open>matching_files\<close>
      is the sorted result of the glob\<close>
  "convert_all_to_m4b ffmpeg_available output_path_of ffmpeg matching_files st =
     (if \<not> ffmpeg_available then ((0, 0), st)
      else let audio_files = filter supported_format matching_files
           in if audio_files = [] then ((0, 0), st)
              else let ((successful_conversions, completed_files), st') =
                         convert_loop output_path_of ffmpeg audio_files 0 0 st
                   in ((successful_conversions, length audio_files), st'))"

definition writes_only_output ::
  "(string \<Rightarrow> string \<Rightarrow> (string \<rightharpoonup> string) \<Rightarrow> bool \<times> (string \<rightharpoonup> string)) \<Rightarrow> bool" where
  \<comment> \<open>the transcoder leaves every file but its output as it is\<close>
  "writes_only_output ffmpeg =
     (\<forall>i out files p. p \<noteq> out \<longrightarrow> snd (ffmpeg i out files) p = files p)"

section \<open>CSV manifest parser\<close>

text \<open>
  \<open>parse_csv_input\<close> reads the lines of the manifest, the leading directives first, and
  hands the rest to \<open>csv.DictReader\<close>.  The file system (\<open>os.path.exists\<close>,
  \<open>os.path.abspath\<close>, the directory of the manifest) and the record splitting of
  \<open>csv.reader\<close> are given in an environment; \<open>DictReader\<close> itself is modelled: the first
  record is the header, an empty record is skipped, a record shorter than the header has
  \<open>None\<close> for the missing fields.
\<close>

record csv_env =
  env_exists :: "string \<Rightarrow> bool"
  env_abspath :: "string \<Rightarrow> string"
  env_csv_dir :: string
  env_reader :: "string list \<Rightarrow> string list list"

definition split_first :: "char \<Rightarrow> string \<Rightarrow> string \<times> string" where
  \<comment> \<open>\<open>s.split(sep, 1)\<close> for a string that contains the separator\<close>
  "split_first sep s = (takeWhile (\<lambda>c. c \<noteq> sep) s, drop 1 (dropWhile (\<lambda>c. c \<noteq> sep) s))"

definition split_directive :: "string \<Rightarrow> (string \<times> string) option" where
  \<comment> \<open>key and value of a line that starts with \<open>#\<close>: the comma form first, then the colon
      form; \<open>None\<close> when the line has neither\<close>
  "split_directive line =
     (if CHR '','' \<in> set line then Some (split_first CHR '','' (drop 1 line))
      else if CHR '':'' \<in> set line then Some (split_first CHR '':'' (drop 1 line))
      else None)"

fun scan_metadata ::
  "nat \<Rightarrow> string list \<Rightarrow> (string \<rightharpoonup> string) \<Rightarrow> nat \<Rightarrow> (string \<rightharpoonup> string) \<times> nat" where
  \<comment> \<open>the loop over \<open>enumerate(lines)\<close> from index \<open>i\<close>: the directives read and
      \<open>data_start_idx\<close>\<close>
  "scan_metadata i [] metadata data_start_idx = (metadata, data_start_idx)"
| "scan_metadata i (raw # rest) metadata data_start_idx =
     (let line = strip raw
      in if take 1 line = ''#'' then
           (case split_directive line of
              None \<Rightarrow> scan_metadata (i + 1) rest metadata data_start_idx
            | Some (k, v) \<Rightarrow>
                (let key = lower (strip k); value = strip v
                 in scan_metadata (i + 1) rest
                      (if key \<noteq> [] \<and> value \<noteq> [] then metadata(key \<mapsto> value) else metadata)
                      (i + 1)))
         else if line \<noteq> [] then (metadata, data_start_idx)
         else scan_metadata (i + 1) rest metadata data_start_idx)"

definition row_dict :: "string list \<Rightarrow> string list \<Rightarrow> (string \<rightharpoonup> string option)" where
  \<comment> \<open>the row of \<open>DictReader\<close>: \<open>dict(zip(fieldnames, row))\<close>, then \<open>None\<close> (\<open>restval\<close>) for
      the field names a short record does not reach\<close>
  "row_dict fieldnames row =
     foldl (\<lambda>d key. d(key \<mapsto> None))
       (foldl (\<lambda>d (key, v). d(key \<mapsto> Some v)) Map.empty (zip fieldnames row))
       (drop (length row) fieldnames)"

definition path_join :: "string \<Rightarrow> string \<Rightarrow> string" where
  \<comment> \<open>\<open>os.path.join(a, b)\<close> for a relative \<open>b\<close>\<close>
  "path_join a b = (if a = [] \<or> last a = CHR ''/'' then a @ b else a @ ''/'' @ b)"

definition resolve_path :: "csv_env \<Rightarrow> string \<Rightarrow> string" where
  \<comment> \<open>the path of a row made absolute, relative to the directory of the manifest\<close>
  "resolve_path env file_path =
     env_abspath env
       (if take 1 file_path = ''/'' then file_path else path_join (env_csv_dir env) file_path)"

fun parse_rows ::
  "csv_env \<Rightarrow> string list \<Rightarrow> string list list \<Rightarrow> manifest_entry list \<Rightarrow> string list \<Rightarrow>
   py_error + manifest_entry list \<times> string list" where
  \<comment> \<open>the loop over the rows of the reader: \<open>file_list\<close> and the warnings logged\<close>
  "parse_rows env fieldnames [] file_list warnings = Inr (file_list, warnings)"
| "parse_rows env fieldnames (row # rest) file_list warnings =
     (if row = [] then parse_rows env fieldnames rest file_list warnings
      else
        case row_dict fieldnames row ''file'' of
          None \<Rightarrow> Inl (ValueError ''CSV must have a file column'')
        | Some None \<Rightarrow> Inl AttributeError
        | Some (Some raw) \<Rightarrow>
            if strip raw = [] then parse_rows env fieldnames rest file_list warnings
            else
              let file_path = resolve_path env (strip raw)
              in if \<not> env_exists env file_path
                 then parse_rows env fieldnames rest file_list
                        (warnings @ [''File not found: '' @ file_path])
                 else if \<not> accepted_container file_path
                 then parse_rows env fieldnames rest file_list
                        (warnings @ [''Skipping non-M4B file: '' @ file_path])
                 else
                   case row_dict fieldnames row ''title'' of
                     Some None \<Rightarrow> Inl AttributeError
                   | None \<Rightarrow>
                       parse_rows env fieldnames rest
                         (file_list @ [\<lparr>entry_file = file_path, entry_title = []\<rparr>]) warnings
                   | Some (Some t) \<Rightarrow>
                       parse_rows env fieldnames rest
                         (file_list @ [\<lparr>entry_file = file_path, entry_title = strip t\<rparr>])
                         warnings)"

definition parse_csv_input ::
  "csv_env \<Rightarrow> string list option \<Rightarrow>
   py_error + (manifest_entry list \<times> (string \<rightharpoonup> string)) \<times> string list" where
  \<comment> \<open>\<open>content\<close> is \<open>f.readlines()\<close>, \<open>None\<close> when the manifest does not exist; the result
      is \<open>(file_list, metadata)\<close> with the warnings logged\<close>
  "parse_csv_input env content =
     (case content of
        None \<Rightarrow> Inl FileNotFoundError
      | Some lines \<Rightarrow>
          (let (metadata, data_start_idx) = scan_metadata 0 lines Map.empty 0;
               csv_data = drop data_start_idx lines
           in if csv_data = [] then Inl (ValueError ''No data rows found in CSV file'')
              else
                let csv_data = filter (\<lambda>line. strip line \<noteq> []) csv_data
                in if csv_data = []
                   then Inl (ValueError ''No non-empty data rows found in CSV file'')
                   else
                     case env_reader env csv_data of
                       [] \<Rightarrow> Inl (ValueError ''No valid M4B files found in CSV'')
                     | fieldnames # rows \<Rightarrow>
                         (case parse_rows env fieldnames rows [] [] of
                            Inl e \<Rightarrow> Inl e
                          | Inr (file_list, warnings) \<Rightarrow>
                              if file_list = []
                              then Inl (ValueError ''No valid M4B files found in CSV'')
                              else Inr ((file_list, metadata), warnings))))"

definition unquoted_reader :: "string list \<Rightarrow> string list list" where
  \<comment> \<open>\<open>csv.reader\<close> on lines without quote characters: the line without its end-of-line
      characters, split at the commas\<close>
  "unquoted_reader lines =
     map (\<lambda>line. split_on CHR '','' []
                   (takeWhile (\<lambda>c. c \<noteq> CHR 0x0A \<and> c \<noteq> CHR 0x0D) line)) lines"

text \<open>The valid entries of a manifest, in the words of the specification.\<close>

definition row_file :: "string list \<Rightarrow> string list \<Rightarrow> string" where
  \<comment> \<open>the \<open>file\<close> value of a row, trimmed\<close>
  "row_file fieldnames row =
     (case row_dict fieldnames row ''file'' of Some (Some raw) \<Rightarrow> strip raw | _ \<Rightarrow> [])"

definition row_named :: "string list \<Rightarrow> string list \<Rightarrow> bool" where
  \<comment> \<open>the row is not empty and names a file\<close>
  "row_named fieldnames row = (row \<noteq> [] \<and> row_file fieldnames row \<noteq> [])"

definition row_valid :: "csv_env \<Rightarrow> string list \<Rightarrow> string list \<Rightarrow> bool" where
  \<comment> \<open>the row names a file that exists and has an accepted extension\<close>
  "row_valid env fieldnames row =
     (row_named fieldnames row
      \<and> env_exists env (resolve_path env (row_file fieldnames row))
      \<and> accepted_container (resolve_path env (row_file fieldnames row)))"

definition row_entry :: "csv_env \<Rightarrow> string list \<Rightarrow> string list \<Rightarrow> manifest_entry" where
  "row_entry env fieldnames row =
     \<lparr>entry_file = resolve_path env (row_file fieldnames row),
      entry_title = (case row_dict fieldnames row ''title'' of
                       Some (Some t) \<Rightarrow> strip t | _ \<Rightarrow> [])\<rparr>"

definition valid_entries :: "csv_env \<Rightarrow> string list \<Rightarrow> string list list \<Rightarrow> manifest_entry list" where
  "valid_entries env fieldnames rows =
     map (row_entry env fieldnames) (filter (row_valid env fieldnames) rows)"

definition skipped_rows :: "csv_env \<Rightarrow> string list \<Rightarrow> string list list \<Rightarrow> string list list" where
  \<comment> \<open>the rows that name a file and are not valid\<close>
  "skipped_rows env fieldnames rows =
     filter (\<lambda>row. row_named fieldnames row \<and> \<not> row_valid env fieldnames row) rows"

definition complete_rows :: "string list \<Rightarrow> string list list \<Rightarrow> bool" where
  \<comment> \<open>the header has a \<open>file\<close> column and every record that is not empty has a field for
      every column\<close>
  "complete_rows fieldnames rows =
     (''file'' \<in> set fieldnames
      \<and> list_all (\<lambda>row. row = [] \<or> length fieldnames \<le> length row) rows)"

section \<open>Properties of chapter synthesis\<close>

lemma file_chapters_no_preserve:
  "file_chapters c fl False ex i t fm =
     [\<lparr>ch_title = py_or (csv_title_of c fl (md_file_path fm))
                   (derive_chapter_title (md_file_path fm) (int i) (md_title fm)),
       ch_start = t, ch_end = t + md_duration fm\<rparr>]"
  by (simp add: file_chapters_def Let_def)

lemma length_generate_no_preserve:
  "length (generate_chapters c fl False ex i t fms) = length fms"
  by (induction fms arbitrary: i t) (simp_all add: file_chapters_no_preserve)

lemma generate_no_preserve_start:
  "k < length fms \<Longrightarrow>
   ch_start (generate_chapters c fl False ex i t fms ! k)
     = t + sum_list (map md_duration (take k fms))"
proof (induction fms arbitrary: i t k)
  case Nil
  then show ?case by simp
next
  case (Cons fm fms)
  show ?case
  proof (cases k)
    case 0
    then show ?thesis by (simp add: file_chapters_no_preserve)
  next
    case (Suc j)
    with Cons.prems have "j < length fms" by simp
    from Cons.IH [OF this] Suc show ?thesis
      by (simp add: file_chapters_no_preserve add.assoc)
  qed
qed

lemma generate_no_preserve_end:
  "k < length fms \<Longrightarrow>
   ch_end (generate_chapters c fl False ex i t fms ! k)
     = t + sum_list (map md_duration (take (Suc k) fms))"
proof (induction fms arbitrary: i t k)
  case Nil
  then show ?case by simp
next
  case (Cons fm fms)
  show ?case
  proof (cases k)
    case 0
    then show ?thesis by (simp add: file_chapters_no_preserve)
  next
    case (Suc j)
    with Cons.prems have "j < length fms" by simp
    from Cons.IH [OF this] Suc show ?thesis
      by (simp add: file_chapters_no_preserve add.assoc)
  qed
qed

text \<open>
  C1.  Without \<open>preserve_existing_chapters\<close>, a non-empty list of \<open>N\<close> tracks gives exactly
  \<open>N\<close> spans.  Span \<open>i\<close> starts at the sum of the durations before track \<open>i\<close> and ends at
  that sum plus the duration of track \<open>i\<close>; the first span starts at 0, each span ends where
  the next one starts, the last one ends at the sum of all durations, and a track of
  duration zero has a span of its own, of length zero.
\<close>

theorem synthesize_prefix_sums:
  assumes "files_metadata \<noteq> []"
  shows "let spans = synthesize csv_given fl False existing files_metadata;
             d = map md_duration files_metadata;
             n = length files_metadata
         in length spans = n
          \<and> (\<forall>i<n. ch_start (spans ! i) = sum_list (take i d)
                  \<and> ch_end (spans ! i) = sum_list (take (Suc i) d))
          \<and> ch_start (spans ! 0) = 0
          \<and> (\<forall>i. Suc i < n \<longrightarrow> ch_end (spans ! i) = ch_start (spans ! Suc i))
          \<and> ch_end (last spans) = sum_list d
          \<and> (\<forall>i<n. d ! i = 0 \<longrightarrow> ch_end (spans ! i) = ch_start (spans ! i))"
proof -
  let ?spans = "synthesize csv_given fl False existing files_metadata"
  let ?d = "map md_duration files_metadata"
  let ?n = "length files_metadata"
  have len: "length ?spans = ?n"
    by (simp add: synthesize_def length_generate_no_preserve)
  have st: "ch_start (?spans ! i) = sum_list (take i ?d)" if "i < ?n" for i
    using generate_no_preserve_start [OF that] by (simp add: synthesize_def take_map)
  have en: "ch_end (?spans ! i) = sum_list (take (Suc i) ?d)" if "i < ?n" for i
    using generate_no_preserve_end [OF that] by (simp add: synthesize_def take_map)
  have pos: "0 < ?n" using assms by simp
  have first: "ch_start (?spans ! 0) = 0"
    using st [OF pos] by simp
  have adj: "ch_end (?spans ! i) = ch_start (?spans ! Suc i)" if "Suc i < ?n" for i
    using that st [of "Suc i"] en [of i] by simp
  have "?spans \<noteq> []" using len pos by auto
  then have "last ?spans = ?spans ! (?n - 1)"
    using len by (simp add: last_conv_nth)
  then have lst: "ch_end (last ?spans) = sum_list ?d"
    using en [of "?n - 1"] pos by simp
  have zero: "ch_end (?spans ! i) = ch_start (?spans ! i)" if "i < ?n" "?d ! i = 0" for i
  proof -
    have "take (Suc i) ?d = take i ?d @ [?d ! i]"
      using that(1) by (simp add: take_Suc_conv_app_nth)
    then show ?thesis using st [OF that(1)] en [OF that(1)] that(2) by simp
  qed
  show ?thesis
    unfolding Let_def using len st en first adj lst zero by blast
qed

theorem synthesize_prefix_sums_witness:
  "(let files_metadata =
          [\<lparr>md_file_path = ''a1.m4b'', md_duration = 2, md_title = [], md_artist = [],
             md_album = [], md_codec = ''aac'', md_sample_rate = ''44100'', md_channels = 2\<rparr>,
           \<lparr>md_file_path = ''a2.m4b'', md_duration = 0, md_title = [], md_artist = [],
             md_album = [], md_codec = ''aac'', md_sample_rate = ''44100'', md_channels = 2\<rparr>,
           \<lparr>md_file_path = ''a3.m4b'', md_duration = 5 / 2, md_title = [], md_artist = [],
             md_album = [], md_codec = ''aac'', md_sample_rate = ''44100'', md_channels = 2\<rparr>];
        spans = synthesize False [] False (\<lambda>_. []) files_metadata
    in files_metadata \<noteq> [] \<and> length spans = 3
       \<and> map ch_start spans = [0, 2, 2] \<and> map ch_end spans = [2, 2, 9 / 2]
       \<and> ch_end (last spans) = sum_list (map md_duration files_metadata))"
  using synthesize_prefix_sums [of
      "[\<lparr>md_file_path = ''a1.m4b'', md_duration = 2, md_title = [], md_artist = [],
             md_album = [], md_codec = ''aac'', md_sample_rate = ''44100'', md_channels = 2\<rparr>,
           \<lparr>md_file_path = ''a2.m4b'', md_duration = 0, md_title = [], md_artist = [],
             md_album = [], md_codec = ''aac'', md_sample_rate = ''44100'', md_channels = 2\<rparr>,
           \<lparr>md_file_path = ''a3.m4b'', md_duration = 5 / 2, md_title = [], md_artist = [],
             md_album = [], md_codec = ''aac'', md_sample_rate = ''44100'', md_channels = 2\<rparr>]"
      False "[]" "\<lambda>_. []"]
  by (simp add: synthesize_def file_chapters_def Let_def)

lemma chain_append:
  "chain t xs m \<Longrightarrow> chain m ys e \<Longrightarrow> chain t (xs @ ys) e"
  by (induction xs arbitrary: t) auto

lemma chain_contiguous: "chain t cs e \<Longrightarrow> contiguous cs"
  by (induction cs arbitrary: t rule: contiguous.induct) auto

lemma chain_shift:
  "chain a cs b \<Longrightarrow>
   chain (t + a) (map (\<lambda>c. \<lparr>ch_title = f c, ch_start = t + ch_start c, ch_end = t + ch_end c\<rparr>) cs)
     (t + b)"
  by (induction cs arbitrary: a) auto

lemma file_chapters_chain:
  assumes "preserve \<longrightarrow> embedded_ok strict fm (existing (md_file_path fm))"
  shows "chain t (file_chapters c fl preserve existing i t fm) (t + md_duration fm)"
proof (cases "preserve \<and> existing (md_file_path fm) \<noteq> []")
  case True
  with assms have "chain 0 (existing (md_file_path fm)) (md_duration fm)"
    by (simp add: embedded_ok_def)
  from chain_shift [OF this, of t] True show ?thesis
    by (simp add: file_chapters_def Let_def)
next
  case False
  then show ?thesis by (auto simp: file_chapters_def Let_def)
qed

lemma file_chapters_ordered:
  assumes "duration_ok strict fm"
    and "preserve \<longrightarrow> embedded_ok strict fm (existing (md_file_path fm))"
  shows "list_all (span_ordered strict) (file_chapters c fl preserve existing i t fm)"
proof (cases "preserve \<and> existing (md_file_path fm) \<noteq> []")
  case True
  with assms have "list_all (span_ordered strict) (existing (md_file_path fm))"
    by (simp add: embedded_ok_def)
  then have "list_all (span_ordered strict)
     (map (\<lambda>c. \<lparr>ch_title = f c, ch_start = t + ch_start c, ch_end = t + ch_end c\<rparr>)
        (existing (md_file_path fm)))" for f
    by (simp add: list_all_iff span_ordered_def)
  with True show ?thesis
    by (simp add: file_chapters_def Let_def)
next
  case False
  with assms(1) show ?thesis
    by (auto simp: file_chapters_def Let_def span_ordered_def duration_ok_def)
qed

lemma generate_chapters_chain:
  assumes "\<forall>fm \<in> set fms. preserve \<longrightarrow> embedded_ok strict fm (existing (md_file_path fm))"
  shows "chain t (generate_chapters c fl preserve existing i t fms)
           (t + sum_list (map md_duration fms))"
  using assms
proof (induction fms arbitrary: i t)
  case Nil
  then show ?case by simp
next
  case (Cons fm fms)
  have a: "chain t (file_chapters c fl preserve existing i t fm) (t + md_duration fm)"
    using Cons.prems by (intro file_chapters_chain [where strict = strict]) simp
  have b: "chain (t + md_duration fm)
             (generate_chapters c fl preserve existing (Suc i) (t + md_duration fm) fms)
             (t + md_duration fm + sum_list (map md_duration fms))"
    using Cons.prems by (intro Cons.IH) simp
  from chain_append [OF a b] show ?case by (simp add: add.assoc)
qed

lemma generate_chapters_ordered:
  assumes "\<forall>fm \<in> set fms. duration_ok strict fm"
    and "\<forall>fm \<in> set fms. preserve \<longrightarrow> embedded_ok strict fm (existing (md_file_path fm))"
  shows "list_all (span_ordered strict) (generate_chapters c fl preserve existing i t fms)"
  using assms
  by (induction fms arbitrary: i t) (simp_all add: file_chapters_ordered)

lemma chain_starts: "chain t cs e \<Longrightarrow> (case cs of [] \<Rightarrow> True | c # _ \<Rightarrow> ch_start c = t)"
  by (cases cs) simp_all

text \<open>
  C2 as stated fails.  A track of duration zero gives a span with \<open>start = end\<close>, and with
  \<open>preserve_existing_chapters\<close> the embedded chapters of a track are copied with an offset
  and nothing else, so a gap inside the track is a gap in the result.
\<close>

theorem synthesize_invariant_counterexample:
  "\<not> span_invariant True (synthesize False [] False (\<lambda>p. [])
        [\<lparr>md_file_path = ''a.m4b'', md_duration = 0, md_title = [], md_artist = [],
          md_album = [], md_codec = ''aac'', md_sample_rate = ''44100'', md_channels = 2\<rparr>])
   \<and> \<not> span_invariant True (synthesize False [] True
        (\<lambda>p. [\<lparr>ch_title = ''Intro'', ch_start = 1, ch_end = 2, ch_duration = 1\<rparr>])
        [\<lparr>md_file_path = ''a.m4b'', md_duration = 5, md_title = [], md_artist = [],
          md_album = [], md_codec = ''aac'', md_sample_rate = ''44100'', md_channels = 2\<rparr>])"
  by (simp add: synthesize_def file_chapters_def Let_def span_invariant_def span_ordered_def)

text \<open>
  C2, amended.  When every track has a positive duration and, with
  \<open>preserve_existing_chapters\<close>, the embedded chapters of each track that has some lead from
  0 to the duration of the track without gap or overlap, each with \<open>start < end\<close>, the
  synthesized list satisfies the invariant: \<open>start < end\<close> in every span, the first span
  starts at 0 and adjacent spans meet.  With durations that are only non-negative (and
  embedded chapters with \<open>start \<le> end\<close>) the same holds with \<open>start \<le> end\<close>.
\<close>

theorem synthesize_invariant:
  assumes "\<forall>fm \<in> set files_metadata. duration_ok strict fm"
    and "\<forall>fm \<in> set files_metadata.
           preserve \<longrightarrow> embedded_ok strict fm (existing (md_file_path fm))"
  shows "span_invariant strict (synthesize csv_given fl preserve existing files_metadata)"
proof -
  let ?out = "synthesize csv_given fl preserve existing files_metadata"
  have ch: "chain 0 ?out (0 + sum_list (map md_duration files_metadata))"
    unfolding synthesize_def using assms(2) by (rule generate_chapters_chain)
  have "list_all (span_ordered strict) ?out"
    unfolding synthesize_def using assms by (rule generate_chapters_ordered)
  with chain_contiguous [OF ch] chain_starts [OF ch] show ?thesis
    by (simp add: span_invariant_def)
qed

theorem synthesize_invariant_witness:
  "(let files_metadata =
        [\<lparr>md_file_path = ''a.m4b'', md_duration = 3, md_title = [], md_artist = [],
          md_album = [], md_codec = ''aac'', md_sample_rate = ''44100'', md_channels = 2\<rparr>,
         \<lparr>md_file_path = ''b.m4b'', md_duration = 2, md_title = [], md_artist = [],
          md_album = [], md_codec = ''aac'', md_sample_rate = ''44100'', md_channels = 2\<rparr>];
        existing = (\<lambda>p. if p = ''a.m4b''
              then [\<lparr>ch_title = ''Intro'', ch_start = 0, ch_end = 1, ch_duration = 1\<rparr>,
                    \<lparr>ch_title = ''Story'', ch_start = 1, ch_end = 3, ch_duration = 2\<rparr>]
              else []);
        spans = synthesize False [] True existing files_metadata
    in list_all (duration_ok True) files_metadata
       \<and> list_all (\<lambda>fm. embedded_ok True fm (existing (md_file_path fm))) files_metadata
       \<and> span_invariant True spans
       \<and> map ch_start spans = [0, 1, 3] \<and> map ch_end spans = [1, 3, 5])"
  using synthesize_invariant [of
        "[\<lparr>md_file_path = ''a.m4b'', md_duration = 3, md_title = [], md_artist = [],
          md_album = [], md_codec = ''aac'', md_sample_rate = ''44100'', md_channels = 2\<rparr>,
         \<lparr>md_file_path = ''b.m4b'', md_duration = 2, md_title = [], md_artist = [],
          md_album = [], md_codec = ''aac'', md_sample_rate = ''44100'', md_channels = 2\<rparr>]"
        True True
        "(\<lambda>p. if p = ''a.m4b''
              then [\<lparr>ch_title = ''Intro'', ch_start = 0, ch_end = 1, ch_duration = 1\<rparr>,
                    \<lparr>ch_title = ''Story'', ch_start = 1, ch_end = 3, ch_duration = 2\<rparr>]
              else [])" False "[]"]
  by (simp add: synthesize_def file_chapters_def Let_def duration_ok_def embedded_ok_def
        span_ordered_def)

section \<open>Properties of the natural sort and of the input selection\<close>

lemma natural_key_shape_aux:
  assumes "d \<longrightarrow> w \<noteq> [] \<and> list_all isdecimal w"
    and "\<not> d \<longrightarrow> list_all (\<lambda>c. \<not> isdecimal c) w"
  shows "alternating d
           (map (\<lambda>text. if isdigit text then Number (int_of_digits text) else Text (lower text))
              (re_split_digits d w cs))"
  using assms
proof (induction cs arbitrary: d w)
  case Nil
  then show ?case
    by (cases w) (auto simp: isdigit_def list_all_iff)
next
  case (Cons c cs)
  show ?case
  proof (cases "isdecimal c = d")
    case True
    with Cons.prems have "alternating d
           (map (\<lambda>text. if isdigit text then Number (int_of_digits text) else Text (lower text))
              (re_split_digits d (c # w) cs))"
      by (intro Cons.IH) auto
    with True show ?thesis by simp
  next
    case False
    with Cons.prems have "alternating (\<not> d)
           (map (\<lambda>text. if isdigit text then Number (int_of_digits text) else Text (lower text))
              (re_split_digits (\<not> d) [c] cs))"
      by (intro Cons.IH) auto
    moreover have "isdigit (rev w) = d"
      using Cons.prems by (cases w) (auto simp: isdigit_def list_all_iff)
    ultimately show ?thesis using False by auto
  qed
qed

lemma natural_sort_key_shape: "alternating False (natural_sort_key filename)"
  unfolding natural_sort_key_def by (rule natural_key_shape_aux) simp_all

lemma alternating_same_kind:
  "alternating b xs \<Longrightarrow> alternating b ys \<Longrightarrow> i < length xs \<Longrightarrow> i < length ys \<Longrightarrow>
   (\<exists>s t. xs ! i = Text s \<and> ys ! i = Text t) \<or> (\<exists>m n. xs ! i = Number m \<and> ys ! i = Number n)"
proof (induction xs arbitrary: b ys i)
  case Nil
  then show ?case by simp
next
  case (Cons x xs)
  then obtain y ys' where ys: "ys = y # ys'" by (cases ys) auto
  show ?case
  proof (cases i)
    case 0
    with Cons.prems ys show ?thesis by (cases x; cases y) auto
  next
    case (Suc j)
    with Cons.prems ys show ?thesis
      using Cons.IH [of "\<not> b" ys' j] by (cases x; cases y) auto
  qed
qed

lemma select_inputs_csv:
  assumes "select_inputs (Some (Inr (fl, md))) input_pattern matching_files abspath output_file title
             = Inr (Some r)"
  shows "ci_m4b_files r = natural_sort (map entry_file fl)"
    and "ci_file_title_list r = fl"
  using assms by (auto simp: select_inputs_def Let_def split: if_splits)

lemma natural_sort_example:
  "natural_sort [''/d/10.m4b'', ''/d/2.m4b''] = [''/d/2.m4b'', ''/d/10.m4b'']"
  by code_simp

text \<open>
  C3 as stated fails: \<open>combine_m4b_files\<close> sorts \<open>m4b_files\<close> naturally whether they come
  from a manifest or from a pattern.  A manifest that lists \<open>10.m4b\<close> before \<open>2.m4b\<close> is
  combined with \<open>2.m4b\<close> first.
\<close>

theorem csv_order_counterexample:
  "map_sum id (map_option ci_m4b_files)
     (select_inputs (Some (Inr ([\<lparr>entry_file = ''/d/10.m4b'', entry_title = ''Ten''\<rparr>,
       \<lparr>entry_file = ''/d/2.m4b'', entry_title = ''Two''\<rparr>], Map.empty)))
        None [] (\<lambda>p. p) (Some ''/o/book.m4b'') None)
   = Inr (Some [''/d/2.m4b'', ''/d/10.m4b''])
   \<and> map entry_file [\<lparr>entry_file = ''/d/10.m4b'', entry_title = ''Ten''\<rparr>,
       \<lparr>entry_file = ''/d/2.m4b'', entry_title = ''Two''\<rparr>] \<noteq> [''/d/2.m4b'', ''/d/10.m4b'']"
  by (simp add: select_inputs_def truthy_def natural_sort_example Let_def)

text \<open>
  C3, amended.  When the input comes from a manifest, the files are combined in the
  natural-sort order of their base names: the combined list is the stable sort of the
  manifest's rows by \<open>natural_sort_key\<close> of the base name, a rearrangement of the rows,
  and it is the manifest's row order exactly when the rows are already in natural-sort
  order.  The manifest's entries are kept as they are for the titles: the manifest title
  that the chapter loop looks up for a combined file is the title of the first row that
  names this file, so that every row's title goes with its file when no file is listed
  twice (a file listed twice takes the title of its first row both times).
\<close>

theorem csv_order_is_natural_sort:
  assumes "select_inputs (Some (Inr (fl, md))) input_pattern matching_files abspath output_file title
             = Inr (Some r)"
  shows "ci_m4b_files r = sort_key (\<lambda>x. natural_sort_key (basename x)) (map entry_file fl)
       \<and> mset (ci_m4b_files r) = mset (map entry_file fl)
       \<and> sorted (map (\<lambda>x. natural_sort_key (basename x)) (ci_m4b_files r))
       \<and> (ci_m4b_files r = map entry_file fl
            \<longleftrightarrow> sorted (map (\<lambda>x. natural_sort_key (basename x)) (map entry_file fl)))
       \<and> ci_file_title_list r = fl
       \<and> (\<forall>p \<in> set (ci_m4b_files r).
             \<exists>item. find (\<lambda>item. entry_file item = p) fl = Some item
                  \<and> entry_file item = p
                  \<and> csv_title_of True (ci_file_title_list r) p = entry_title item)
       \<and> (distinct (map entry_file fl) \<longrightarrow>
            (\<forall>item \<in> set fl.
               csv_title_of True (ci_file_title_list r) (entry_file item) = entry_title item))"
proof -
  let ?k = "\<lambda>x. natural_sort_key (basename x)"
  let ?rows = "map entry_file fl"
  have eq: "ci_m4b_files r = sort_key ?k ?rows"
    using select_inputs_csv(1) [OF assms] by (simp add: natural_sort_def)
  have fl: "ci_file_title_list r = fl"
    by (rule select_inputs_csv(2) [OF assms])
  have srt: "sorted (map ?k (sort_key ?k ?rows))"
    by (rule sorted_sort_key)
  have "sort_key ?k ?rows = ?rows" if "sorted (map ?k ?rows)"
    using that by (rule sort_key_id_if_sorted)
  moreover have "sorted (map ?k ?rows)" if "sort_key ?k ?rows = ?rows"
    using srt that by simp
  ultimately have order: "ci_m4b_files r = sort_key ?k ?rows
       \<and> mset (ci_m4b_files r) = mset ?rows
       \<and> sorted (map ?k (ci_m4b_files r))
       \<and> (ci_m4b_files r = ?rows \<longleftrightarrow> sorted (map ?k ?rows))"
    using eq srt by auto
  have first_row: "\<exists>item. find (\<lambda>item. entry_file item = p) fl = Some item
                  \<and> entry_file item = p
                  \<and> csv_title_of True (ci_file_title_list r) p = entry_title item"
    if "p \<in> set (ci_m4b_files r)" for p
  proof -
    from that eq have "p \<in> set ?rows" by simp
    then have "find (\<lambda>item. entry_file item = p) fl \<noteq> None"
      by (auto simp: find_None_iff)
    then obtain item where item: "find (\<lambda>item. entry_file item = p) fl = Some item"
      by auto
    then have "entry_file item = p"
      by (auto simp: find_Some_iff)
    with item show ?thesis
      by (simp add: csv_title_of_def fl)
  qed
  have own_row: "csv_title_of True (ci_file_title_list r) (entry_file item) = entry_title item"
    if "distinct ?rows" and "item \<in> set fl" for item
    using that unfolding fl
    by (induction fl) (auto simp: csv_title_of_def)
  from order fl first_row own_row show ?thesis by blast
qed

theorem csv_order_is_natural_sort_witness:
  "select_inputs (Some (Inr ([\<lparr>entry_file = ''/d/10.m4b'', entry_title = ''Ten''\<rparr>,
       \<lparr>entry_file = ''/d/2.m4b'', entry_title = ''Two''\<rparr>], Map.empty)))
        None [] (\<lambda>p. p) (Some ''/o/book.m4b'') None
   = Inr (Some \<lparr>ci_m4b_files = [''/d/2.m4b'', ''/d/10.m4b''],
                 ci_file_title_list = [\<lparr>entry_file = ''/d/10.m4b'', entry_title = ''Ten''\<rparr>,
       \<lparr>entry_file = ''/d/2.m4b'', entry_title = ''Two''\<rparr>],
                 ci_csv_metadata = Map.empty,
                 ci_output_file = Some ''/o/book.m4b'',
                 ci_title = None\<rparr>)
   \<and> mset [''/d/2.m4b'', ''/d/10.m4b''] = mset [''/d/10.m4b'', ''/d/2.m4b'']
   \<and> sorted (map (\<lambda>x. natural_sort_key (basename x)) [''/d/2.m4b'', ''/d/10.m4b''])
   \<and> \<not> sorted (map (\<lambda>x. natural_sort_key (basename x)) [''/d/10.m4b'', ''/d/2.m4b''])"
proof -
  have h: "select_inputs (Some (Inr ([\<lparr>entry_file = ''/d/10.m4b'', entry_title = ''Ten''\<rparr>,
       \<lparr>entry_file = ''/d/2.m4b'', entry_title = ''Two''\<rparr>], Map.empty)))
        None [] (\<lambda>p. p) (Some ''/o/book.m4b'') None
   = Inr (Some \<lparr>ci_m4b_files = [''/d/2.m4b'', ''/d/10.m4b''],
                 ci_file_title_list = [\<lparr>entry_file = ''/d/10.m4b'', entry_title = ''Ten''\<rparr>,
       \<lparr>entry_file = ''/d/2.m4b'', entry_title = ''Two''\<rparr>],
                 ci_csv_metadata = Map.empty,
                 ci_output_file = Some ''/o/book.m4b'',
                 ci_title = None\<rparr>)"
    by (simp add: select_inputs_def truthy_def natural_sort_example Let_def)
  note t = csv_order_is_natural_sort [OF h]
  have m: "mset [''/d/2.m4b'', ''/d/10.m4b''] = mset [''/d/10.m4b'', ''/d/2.m4b'']"
    using conjunct1 [OF conjunct2 [OF t]] by simp
  have s1: "sorted (map (\<lambda>x. natural_sort_key (basename x)) [''/d/2.m4b'', ''/d/10.m4b''])"
    by code_simp
  have s2: "\<not> sorted (map (\<lambda>x. natural_sort_key (basename x)) [''/d/10.m4b'', ''/d/2.m4b''])"
    by code_simp
  show ?thesis by (intro conjI h m s1 s2)
qed

lemma select_inputs_fields:
  assumes "select_inputs parsed input_pattern matching_files abspath output_file title = Inr (Some r)"
  shows "ci_csv_metadata r = (case parsed of Some (Inr (fl, m)) \<Rightarrow> m | _ \<Rightarrow> Map.empty)"
    and "ci_output_file r =
           (case ci_csv_metadata r ''output_path'' of Some p \<Rightarrow> Some p | None \<Rightarrow> output_file)"
    and "ci_title r =
           (if ci_csv_metadata r ''title'' \<noteq> None \<and> \<not> truthy title
            then ci_csv_metadata r ''title'' else title)"
  using assms
  by (auto simp: select_inputs_def Let_def split: if_splits option.splits sum.splits py_error.splits)

lemma book_title_precedence:
  "book_title (if md ''title'' \<noteq> None \<and> \<not> truthy title then md ''title'' else title) md first =
     (if truthy title then the title
      else if truthy (md ''title'') then the (md ''title'')
      else if md_album first \<noteq> [] then md_album first
      else ''Combined Audiobook'')"
  by (auto simp: book_title_def opt_or_def py_or_def truthy_def split: option.splits)

text \<open>
  C4 as stated fails for \<open>output_path\<close>: a manifest with an \<open>output_path\<close> directive
  replaces the caller's \<open>output_file\<close>.
\<close>

theorem book_metadata_counterexample:
  "map_sum id (map_option ci_output_file)
     (select_inputs (Some (Inr ([\<lparr>entry_file = ''/d/10.m4b'', entry_title = ''Ten''\<rparr>,
       \<lparr>entry_file = ''/d/2.m4b'', entry_title = ''Two''\<rparr>], [''output_path'' \<mapsto> ''/o/csv.m4b''])))
        None [] (\<lambda>p. p) (Some ''/o/caller.m4b'') None)
   = Inr (Some (Some ''/o/csv.m4b''))"
  by (simp add: select_inputs_def truthy_def Let_def natural_sort_example)

text \<open>
  C4, amended.  The title and the album of the combined book are the caller's \<open>title\<close>
  when it is non-empty, else the manifest's \<open>title\<close> directive, else the \<open>album\<close> tag of
  the first source track, else \<open>Combined Audiobook\<close>.  The output path is the manifest's
  \<open>output_path\<close> directive when there is one, and the caller's \<open>output_file\<close> otherwise.
  The artist is the manifest's \<open>author\<close>, else the first track's \<open>artist\<close> tag; author,
  narrator, year and description come from the manifest alone, and the genre is the
  manifest's or \<open>Audiobook\<close>.
\<close>

theorem book_metadata_precedence:
  assumes "select_inputs parsed input_pattern matching_files abspath output_file title = Inr (Some r)"
  shows "(let md = (case parsed of Some (Inr (fl, m)) \<Rightarrow> m | _ \<Rightarrow> Map.empty);
              out = output_metadata (ci_title r) (ci_csv_metadata r) first;
              book = (if truthy title then the title
                      else if truthy (md ''title'') then the (md ''title'')
                      else if md_album first \<noteq> [] then md_album first
                      else ''Combined Audiobook'')
          in ci_output_file r = (case md ''output_path'' of Some p \<Rightarrow> Some p | None \<Rightarrow> output_file)
           \<and> out ''title'' = Some book
           \<and> out ''album'' = Some book
           \<and> out ''artist'' = Some (if truthy (md ''author'') then the (md ''author'')
                                   else md_artist first)
           \<and> out ''author'' = Some (case md ''author'' of Some v \<Rightarrow> v | None \<Rightarrow> [])
           \<and> out ''narrator'' = Some (case md ''narrator'' of Some v \<Rightarrow> v | None \<Rightarrow> [])
           \<and> out ''genre'' = Some (case md ''genre'' of Some v \<Rightarrow> v | None \<Rightarrow> ''Audiobook'')
           \<and> out ''year'' = Some (case md ''year'' of Some v \<Rightarrow> v | None \<Rightarrow> [])
           \<and> out ''description'' = Some (case md ''description'' of Some v \<Rightarrow> v | None \<Rightarrow> []))"
proof -
  define md where "md = (case parsed of Some (Inr (fl, m)) \<Rightarrow> m | _ \<Rightarrow> Map.empty)"
  note f = select_inputs_fields [OF assms]
  have csv: "ci_csv_metadata r = md"
    unfolding md_def by (rule f(1))
  have "ci_title r = (if md ''title'' \<noteq> None \<and> \<not> truthy title then md ''title'' else title)"
    using f(3) by (simp only: csv)
  then have t: "book_title (ci_title r) md first =
     (if truthy title then the title
      else if truthy (md ''title'') then the (md ''title'')
      else if md_album first \<noteq> [] then md_album first
      else ''Combined Audiobook'')"
    by (simp only: book_title_precedence)
  have a: "opt_or (md ''author'') (md_artist first) =
      (if truthy (md ''author'') then the (md ''author'') else md_artist first)"
    by (auto simp: opt_or_def py_or_def truthy_def split: option.splits)
  have o: "ci_output_file r =
      (case md ''output_path'' of Some p \<Rightarrow> Some p | None \<Rightarrow> output_file)"
    using f(2) by (simp only: csv)
  have "(let out = output_metadata (ci_title r) md first;
              book = (if truthy title then the title
                      else if truthy (md ''title'') then the (md ''title'')
                      else if md_album first \<noteq> [] then md_album first
                      else ''Combined Audiobook'')
          in ci_output_file r = (case md ''output_path'' of Some p \<Rightarrow> Some p | None \<Rightarrow> output_file)
           \<and> out ''title'' = Some book
           \<and> out ''album'' = Some book
           \<and> out ''artist'' = Some (if truthy (md ''author'') then the (md ''author'')
                                   else md_artist first)
           \<and> out ''author'' = Some (case md ''author'' of Some v \<Rightarrow> v | None \<Rightarrow> [])
           \<and> out ''narrator'' = Some (case md ''narrator'' of Some v \<Rightarrow> v | None \<Rightarrow> [])
           \<and> out ''genre'' = Some (case md ''genre'' of Some v \<Rightarrow> v | None \<Rightarrow> ''Audiobook'')
           \<and> out ''year'' = Some (case md ''year'' of Some v \<Rightarrow> v | None \<Rightarrow> [])
           \<and> out ''description'' = Some (case md ''description'' of Some v \<Rightarrow> v | None \<Rightarrow> []))"
    unfolding Let_def output_metadata_def
    by (simp add: o t a get_or_def)
  then show ?thesis
    unfolding csv unfolding md_def Let_def by simp
qed

theorem book_metadata_precedence_witness:
  "select_inputs
      (Some (Inr ([\<lparr>entry_file = ''/d/10.m4b'', entry_title = ''Ten''\<rparr>,
       \<lparr>entry_file = ''/d/2.m4b'', entry_title = ''Two''\<rparr>],
                  [''title'' \<mapsto> ''Csv Title'', ''output_path'' \<mapsto> ''/o/csv.m4b''])))
      None [] (\<lambda>p. p) (Some ''/o/caller.m4b'') (Some ''Caller Title'')
   = Inr (Some \<lparr>ci_m4b_files = [''/d/2.m4b'', ''/d/10.m4b''],
                 ci_file_title_list = [\<lparr>entry_file = ''/d/10.m4b'', entry_title = ''Ten''\<rparr>,
       \<lparr>entry_file = ''/d/2.m4b'', entry_title = ''Two''\<rparr>],
                 ci_csv_metadata = [''title'' \<mapsto> ''Csv Title'', ''output_path'' \<mapsto> ''/o/csv.m4b''],
                 ci_output_file = Some ''/o/csv.m4b'',
                 ci_title = Some ''Caller Title''\<rparr>)
   \<and> output_metadata (Some ''Caller Title'')
        [''title'' \<mapsto> ''Csv Title'', ''output_path'' \<mapsto> ''/o/csv.m4b'']
        \<lparr>md_file_path = ''/d/2.m4b'', md_duration = 3, md_title = [], md_artist = ''Tag Artist'',
        md_album = ''Tag Album'', md_codec = ''aac'', md_sample_rate = ''44100'', md_channels = 2\<rparr> ''title'' = Some ''Caller Title''
   \<and> output_metadata (Some ''Caller Title'')
        [''title'' \<mapsto> ''Csv Title'', ''output_path'' \<mapsto> ''/o/csv.m4b'']
        \<lparr>md_file_path = ''/d/2.m4b'', md_duration = 3, md_title = [], md_artist = ''Tag Artist'',
        md_album = ''Tag Album'', md_codec = ''aac'', md_sample_rate = ''44100'', md_channels = 2\<rparr> ''artist'' = Some ''Tag Artist''"
proof -
  have h: "select_inputs
      (Some (Inr ([\<lparr>entry_file = ''/d/10.m4b'', entry_title = ''Ten''\<rparr>,
       \<lparr>entry_file = ''/d/2.m4b'', entry_title = ''Two''\<rparr>],
                  [''title'' \<mapsto> ''Csv Title'', ''output_path'' \<mapsto> ''/o/csv.m4b''])))
      None [] (\<lambda>p. p) (Some ''/o/caller.m4b'') (Some ''Caller Title'')
   = Inr (Some \<lparr>ci_m4b_files = [''/d/2.m4b'', ''/d/10.m4b''],
                 ci_file_title_list = [\<lparr>entry_file = ''/d/10.m4b'', entry_title = ''Ten''\<rparr>,
       \<lparr>entry_file = ''/d/2.m4b'', entry_title = ''Two''\<rparr>],
                 ci_csv_metadata = [''title'' \<mapsto> ''Csv Title'', ''output_path'' \<mapsto> ''/o/csv.m4b''],
                 ci_output_file = Some ''/o/csv.m4b'',
                 ci_title = Some ''Caller Title''\<rparr>)"
    by (simp add: select_inputs_def truthy_def natural_sort_example Let_def)
  note t = book_metadata_precedence [OF h, of "\<lparr>md_file_path = ''/d/2.m4b'', md_duration = 3, md_title = [], md_artist = ''Tag Artist'',
        md_album = ''Tag Album'', md_codec = ''aac'', md_sample_rate = ''44100'', md_channels = 2\<rparr>", unfolded Let_def]
  have a: "output_metadata (Some ''Caller Title'')
        [''title'' \<mapsto> ''Csv Title'', ''output_path'' \<mapsto> ''/o/csv.m4b'']
        \<lparr>md_file_path = ''/d/2.m4b'', md_duration = 3, md_title = [], md_artist = ''Tag Artist'',
        md_album = ''Tag Album'', md_codec = ''aac'', md_sample_rate = ''44100'', md_channels = 2\<rparr> ''title'' = Some ''Caller Title''"
    using conjunct1 [OF conjunct2 [OF t]] by (simp add: truthy_def)
  have b: "output_metadata (Some ''Caller Title'')
        [''title'' \<mapsto> ''Csv Title'', ''output_path'' \<mapsto> ''/o/csv.m4b'']
        \<lparr>md_file_path = ''/d/2.m4b'', md_duration = 3, md_title = [], md_artist = ''Tag Artist'',
        md_album = ''Tag Album'', md_codec = ''aac'', md_sample_rate = ''44100'', md_channels = 2\<rparr> ''artist'' = Some ''Tag Artist''"
    using conjunct1 [OF conjunct2 [OF conjunct2 [OF conjunct2 [OF t]]]] by (simp add: truthy_def)
  show ?thesis by (intro conjI h a b)
qed

section \<open>Properties of the command line\<close>









section \<open>Properties of the title deriver\<close>

lemma star_rests_first: "\<exists>ys. star_rests p s = dropWhile p s # ys"
  by (induction s) auto

lemma concat_map_first:
  assumes "xs = x # xs'" and "g x = y # ys"
  shows "\<exists>zs. concat (map g xs) = y # zs"
  using assms by simp

lemma tail_pattern_first:
  "\<exists>zs. rmatch ic (Seq (Star p) (Seq (Star q) (Star r))) s
          = dropWhile r (dropWhile q (dropWhile p s)) # zs"
proof -
  obtain a where a: "star_rests p s = dropWhile p s # a"
    using star_rests_first by blast
  obtain b where b: "star_rests q (dropWhile p s) = dropWhile q (dropWhile p s) # b"
    using star_rests_first by blast
  obtain c where c: "star_rests r (dropWhile q (dropWhile p s))
      = dropWhile r (dropWhile q (dropWhile p s)) # c"
    using star_rests_first by blast
  show ?thesis by (simp add: a b c)
qed

lemma keyword_matches:
  "rmatch True (Alt (Lit ''chapter'') (Alt (Lit ''ch'') (Alt (Lit ''part'') (Lit ''pt'')))) s = []
     \<longleftrightarrow> first_keyword prefix_keywords s = None"
  "first_keyword prefix_keywords s = Some rest \<Longrightarrow>
     \<exists>more. rmatch True (Alt (Lit ''chapter'') (Alt (Lit ''ch'') (Alt (Lit ''part'') (Lit ''pt'')))) s
            = rest # more"
  by (auto simp: prefix_keywords_def split: option.splits)

lemma re_sub_prefix_pattern: "re_sub_start True prefix_pattern s = strip_prefix_token s"
proof (cases "first_keyword prefix_keywords s")
  case None
  then have "rmatch True (Alt (Lit ''chapter'') (Alt (Lit ''ch'') (Alt (Lit ''part'') (Lit ''pt'')))) s = []"
    by (simp only: keyword_matches(1))
  then have "rmatch True prefix_pattern s = []"
    by (simp only: prefix_pattern_def rmatch.simps list.map concat.simps)
  with None show ?thesis
    by (simp add: re_sub_start_def strip_prefix_token_def)
next
  case (Some rest)
  then obtain more where
    m: "rmatch True (Alt (Lit ''chapter'') (Alt (Lit ''ch'') (Alt (Lit ''part'') (Lit ''pt'')))) s
          = rest # more"
    using keyword_matches(2) by blast
  obtain zs where
    z: "rmatch True (Seq (Star is_sep) (Seq (Star isdecimal) (Star is_sep))) rest
          = dropWhile is_sep (dropWhile isdecimal (dropWhile is_sep rest)) # zs"
    using tail_pattern_first by blast
  have "\<exists>ws. rmatch True prefix_pattern s
          = dropWhile is_sep (dropWhile isdecimal (dropWhile is_sep rest)) # ws"
    unfolding prefix_pattern_def rmatch.simps(3) [of True "Alt _ _"] m
    using z by simp
  with Some show ?thesis
    by (auto simp: re_sub_start_def strip_prefix_token_def)
qed

lemma re_sub_number_pattern: "re_sub_start False number_pattern s = strip_leading_number s"
proof (cases s)
  case Nil
  then show ?thesis
    by (simp add: re_sub_start_def number_pattern_def strip_leading_number_def)
next
  case (Cons c cs)
  show ?thesis
  proof (cases "isdecimal c")
    case False
    with Cons show ?thesis
      by (simp add: re_sub_start_def number_pattern_def strip_leading_number_def)
  next
    case True
    obtain a where a: "star_rests isdecimal cs = dropWhile isdecimal cs # a"
      using star_rests_first by blast
    obtain b where b: "star_rests is_sep (dropWhile isdecimal cs)
        = dropWhile is_sep (dropWhile isdecimal cs) # b"
      using star_rests_first by blast
    from Cons True show ?thesis
      by (simp add: re_sub_start_def number_pattern_def strip_leading_number_def a b)
  qed
qed

lemma clean_stem_cleaned_title: "clean_stem stem = cleaned_title stem"
proof -
  have "replace_char CHR ''-'' CHR '' '' (replace_char CHR ''_'' CHR '' '' t)
      = map (\<lambda>c. if c = CHR ''_'' \<or> c = CHR ''-'' then CHR '' '' else c) t" for t
    by (induction t) auto
  then show ?thesis
    by (simp only: clean_stem_def cleaned_title_def Let_def re_sub_prefix_pattern
        re_sub_number_pattern)
qed

text \<open>
  C6 as stated fails: when the existing title, trimmed, is not empty, the package's
  \<open>derive_chapter_title\<close> returns the trimmed title and not the title as given.
\<close>

theorem derive_chapter_title_counterexample:
  "strip '' Existing '' \<noteq> [] \<and> derive_chapter_title ''x'' 1 '' Existing '' \<noteq> '' Existing ''"
  by code_simp

text \<open>
  C6, amended.  \<open>derive_chapter_title\<close> returns the existing title with the whitespace at
  its ends removed whenever that is not empty.  Otherwise it takes the file stem, strips a
  leading \<open>chapter\<close>, \<open>ch\<close>, \<open>part\<close> or \<open>pt\<close> (case ignored) with the separators and digits
  after it, strips a remaining leading run of digits with its separators, replaces
  underscores and hyphens by blanks, collapses whitespace and title-cases the result; when
  nothing is left it returns \<open>Chapter\<close> followed by the position.  The three examples of the
  specification hold.
\<close>

theorem derive_chapter_title_rule:
  "derive_chapter_title file_path index existing_title =
     (if strip existing_title \<noteq> [] then strip existing_title
      else if cleaned_title (path_stem file_path) = [] then ''Chapter '' @ str_int index
      else title_case (cleaned_title (path_stem file_path)))
   \<and> derive_chapter_title ''Chapter_03_The_Awakening'' 3 [] = ''The Awakening''
   \<and> derive_chapter_title ''09'' 9 [] = ''Chapter 9''
   \<and> derive_chapter_title ''x'' 1 ''Existing'' = ''Existing''"
proof -
  have a: "derive_chapter_title ''Chapter_03_The_Awakening'' 3 [] = ''The Awakening''"
    by code_simp
  have b: "derive_chapter_title ''09'' 9 [] = ''Chapter 9''"
    by code_simp
  have c: "derive_chapter_title ''x'' 1 ''Existing'' = ''Existing''"
    by code_simp
  have "derive_chapter_title file_path index existing_title =
     (if strip existing_title \<noteq> [] then strip existing_title
      else if cleaned_title (path_stem file_path) = [] then ''Chapter '' @ str_int index
      else title_case (cleaned_title (path_stem file_path)))"
    by (simp add: derive_chapter_title_def clean_stem_cleaned_title Let_def)
  with a b c show ?thesis by (intro conjI)
qed

theorem derive_chapter_title_rule_witness:
  "derive_chapter_title ''/books/ch 12 - the_end.m4b'' 4 ''  '' = ''The End''
   \<and> derive_chapter_title ''/books/Part-07.m4b'' 7 [] = ''Chapter 7''
   \<and> derive_chapter_title ''/books/Part-07.m4b'' 7 '' Prologue  '' = ''Prologue''"
proof -
  note t = derive_chapter_title_rule
  have a: "(if strip ''  '' \<noteq> [] then strip ''  ''
      else if cleaned_title (path_stem ''/books/ch 12 - the_end.m4b'') = []
           then ''Chapter '' @ str_int 4
      else title_case (cleaned_title (path_stem ''/books/ch 12 - the_end.m4b''))) = ''The End''"
    by code_simp
  have b: "(if strip [] \<noteq> [] then strip []
      else if cleaned_title (path_stem ''/books/Part-07.m4b'') = []
           then ''Chapter '' @ str_int 7
      else title_case (cleaned_title (path_stem ''/books/Part-07.m4b''))) = ''Chapter 7''"
    by code_simp
  have c: "(if strip '' Prologue  '' \<noteq> [] then strip '' Prologue  ''
      else if cleaned_title (path_stem ''/books/Part-07.m4b'') = []
           then ''Chapter '' @ str_int 7
      else title_case (cleaned_title (path_stem ''/books/Part-07.m4b''))) = ''Prologue''"
    by code_simp
  show ?thesis
    by (intro conjI trans [OF conjunct1 [OF t] a] trans [OF conjunct1 [OF t] b]
        trans [OF conjunct1 [OF t] c])
qed

section \<open>Properties of the chapter table encoder\<close>








section \<open>Properties of the chapter table decoder\<close>














section \<open>Properties of the converter\<close>

lemma process_single_file_skip:
  "rs_files st (output_path_of input_file) \<noteq> None \<Longrightarrow>
   process_single_file output_path_of ffmpeg input_file st = ((False, input_file), st)"
  by (simp add: process_single_file_def)

lemma process_single_file_step:
  assumes "writes_only_output ffmpeg"
    and "process_single_file output_path_of ffmpeg f st = ((success, g), st')"
  shows "\<forall>p. rs_files st p \<noteq> None \<longrightarrow> rs_files st' p = rs_files st p"
    and "\<exists>new. rs_invocations st' = rs_invocations st @ new
           \<and> (\<forall>inv \<in> set new. rs_files st (snd inv) = None)"
    and "success \<longrightarrow> rs_files st (output_path_of f) = None"
proof -
  show "success \<longrightarrow> rs_files st (output_path_of f) = None"
    using assms(2) by (auto simp: process_single_file_def Let_def split: if_splits)
  show "\<forall>p. rs_files st p \<noteq> None \<longrightarrow> rs_files st' p = rs_files st p"
  proof (cases "rs_files st (output_path_of f) \<noteq> None")
    case True
    with assms(2) show ?thesis by (auto simp: process_single_file_def Let_def)
  next
    case False
    with assms(2) have "rs_files st' = snd (ffmpeg f (output_path_of f) (rs_files st))"
      by (auto simp: process_single_file_def convert_to_m4b_def Let_def split: prod.splits)
    with assms(1) False show ?thesis
      unfolding writes_only_output_def by metis
  qed
  show "\<exists>new. rs_invocations st' = rs_invocations st @ new
           \<and> (\<forall>inv \<in> set new. rs_files st (snd inv) = None)"
  proof (cases "rs_files st (output_path_of f) \<noteq> None")
    case True
    with assms(2) show ?thesis by (auto simp: process_single_file_def Let_def)
  next
    case False
    with assms(2) have "rs_invocations st' = rs_invocations st @ [(f, output_path_of f)]"
      by (auto simp: process_single_file_def convert_to_m4b_def Let_def split: prod.splits)
    with False show ?thesis by simp
  qed
qed

lemma length_filter_mono:
  "(\<And>x. x \<in> set xs \<Longrightarrow> P x \<Longrightarrow> Q x) \<Longrightarrow> length (filter P xs) \<le> length (filter Q xs)"
  by (induction xs) auto

lemma convert_loop_invariant:
  assumes "writes_only_output ffmpeg"
    and "convert_loop output_path_of ffmpeg fs s c st = ((s', c'), st')"
  shows "c' = c + length fs
       \<and> s' \<le> s + length (filter (\<lambda>f. rs_files st (output_path_of f) = None) fs)
       \<and> (\<forall>p. rs_files st p \<noteq> None \<longrightarrow> rs_files st' p = rs_files st p)
       \<and> (\<exists>new. rs_invocations st' = rs_invocations st @ new
             \<and> (\<forall>inv \<in> set new. rs_files st (snd inv) = None))"
  using assms(2)
proof (induction fs arbitrary: s c st)
  case Nil
  then show ?case by simp
next
  case (Cons f fs)
  obtain success g st1 where
    p: "process_single_file output_path_of ffmpeg f st = ((success, g), st1)"
    by (metis surj_pair)
  note step = process_single_file_step [OF assms(1) p]
  let ?s1 = "if success then s + 1 else s"
  from Cons.prems p have "convert_loop output_path_of ffmpeg fs ?s1 (c + 1) st1 = ((s', c'), st')"
    by simp
  from Cons.IH [OF this] obtain new where
    ih: "c' = c + 1 + length fs"
      "s' \<le> ?s1 + length (filter (\<lambda>f. rs_files st1 (output_path_of f) = None) fs)"
      "\<forall>p. rs_files st1 p \<noteq> None \<longrightarrow> rs_files st' p = rs_files st1 p"
      "rs_invocations st' = rs_invocations st1 @ new"
      "\<forall>inv \<in> set new. rs_files st1 (snd inv) = None"
    by blast
  from step(2) obtain new0 where
    n0: "rs_invocations st1 = rs_invocations st @ new0"
      "\<forall>inv \<in> set new0. rs_files st (snd inv) = None"
    by blast
  have keep: "rs_files st p = None" if "rs_files st1 p = None" for p
    using step(1) that by (metis option.distinct(1))
  have "length (filter (\<lambda>f. rs_files st1 (output_path_of f) = None) fs)
      \<le> length (filter (\<lambda>f. rs_files st (output_path_of f) = None) fs)"
    by (rule length_filter_mono) (rule keep)
  with ih(2) step(3) have count:
    "s' \<le> s + length (filter (\<lambda>f. rs_files st (output_path_of f) = None) (f # fs))"
    by (auto split: if_splits)
  have files: "\<forall>p. rs_files st p \<noteq> None \<longrightarrow> rs_files st' p = rs_files st p"
    using step(1) ih(3) by (metis option.distinct(1))
  have inv: "rs_invocations st' = rs_invocations st @ (new0 @ new)
            \<and> (\<forall>inv \<in> set (new0 @ new). rs_files st (snd inv) = None)"
    using n0 ih(4,5) keep by auto
  from ih(1) count files inv show ?case
    by (intro conjI) (simp, assumption, assumption, blast)
qed

text \<open>
  C10.  A file whose output path already exists is not converted: the transcoder is not
  invoked, the state (the existing output with it) is unchanged and the file is reported
  as unsuccessful.  In a whole run the total is the number of audio files, the files whose
  output existed before the run are not among the successful ones, their outputs are as
  they were and no invocation writes to them; this for a transcoder that leaves every
  file but its output as it is.
\<close>

theorem existing_output_counts_as_failure:
  "(rs_files st (output_path_of input_file) \<noteq> None \<longrightarrow>
      process_single_file output_path_of ffmpeg input_file st = ((False, input_file), st))
   \<and> (writes_only_output ffmpeg
       \<and> convert_all_to_m4b True output_path_of ffmpeg matching_files st
           = ((successful, total_files), st') \<longrightarrow>
       total_files = length (filter supported_format matching_files)
       \<and> successful \<le> length (filter (\<lambda>f. rs_files st (output_path_of f) = None)
                                (filter supported_format matching_files))
       \<and> (\<forall>f \<in> set (filter supported_format matching_files).
             rs_files st (output_path_of f) \<noteq> None \<longrightarrow>
             rs_files st' (output_path_of f) = rs_files st (output_path_of f)
             \<and> (\<forall>inv \<in> set (drop (length (rs_invocations st)) (rs_invocations st')).
                   snd inv \<noteq> output_path_of f)))"
proof (intro conjI impI)
  assume "rs_files st (output_path_of input_file) \<noteq> None"
  then show "process_single_file output_path_of ffmpeg input_file st = ((False, input_file), st)"
    by (rule process_single_file_skip)
next
  assume a: "writes_only_output ffmpeg
       \<and> convert_all_to_m4b True output_path_of ffmpeg matching_files st
           = ((successful, total_files), st')"
  let ?audio = "filter supported_format matching_files"
  have all: "total_files = length ?audio
       \<and> successful \<le> length (filter (\<lambda>f. rs_files st (output_path_of f) = None) ?audio)
       \<and> (\<forall>p. rs_files st p \<noteq> None \<longrightarrow> rs_files st' p = rs_files st p)
       \<and> (\<exists>new. rs_invocations st' = rs_invocations st @ new
             \<and> (\<forall>inv \<in> set new. rs_files st (snd inv) = None))"
  proof (cases "?audio = []")
    case True
    with a show ?thesis by (simp add: convert_all_to_m4b_def)
  next
    case False
    obtain s c st1 where
      l: "convert_loop output_path_of ffmpeg ?audio 0 0 st = ((s, c), st1)"
      by (metis surj_pair)
    with a False have "successful = s" "total_files = length ?audio" "st' = st1"
      by (simp_all add: convert_all_to_m4b_def Let_def)
    with convert_loop_invariant [OF conjunct1 [OF a] l] show ?thesis
      by simp
  qed
  then show "total_files = length ?audio"
    and "successful \<le> length (filter (\<lambda>f. rs_files st (output_path_of f) = None) ?audio)"
    by simp_all
  from all obtain new where
    new: "rs_invocations st' = rs_invocations st @ new"
      "\<forall>inv \<in> set new. rs_files st (snd inv) = None"
    by blast
  from all new
  show "\<forall>f \<in> set ?audio.
             rs_files st (output_path_of f) \<noteq> None \<longrightarrow>
             rs_files st' (output_path_of f) = rs_files st (output_path_of f)
             \<and> (\<forall>inv \<in> set (drop (length (rs_invocations st)) (rs_invocations st')).
                   snd inv \<noteq> output_path_of f)"
    by auto
qed

theorem existing_output_counts_as_failure_witness:
  "writes_only_output (\<lambda>i out files. (True, files(out \<mapsto> ''audio'')))
   \<and> convert_all_to_m4b True
        (\<lambda>f. if f = ''/in/a.mp3'' then ''/out/a.m4b'' else ''/out/b.m4b'')
        (\<lambda>i out files. (True, files(out \<mapsto> ''audio'')))
        [''/in/a.mp3'', ''/in/b.mp3'', ''/in/notes.txt'']
        \<lparr>rs_files = [''/out/a.m4b'' \<mapsto> ''old''], rs_invocations = []\<rparr>
      = ((1, 2),
         \<lparr>rs_files = [''/out/a.m4b'' \<mapsto> ''old'', ''/out/b.m4b'' \<mapsto> ''audio''],
            rs_invocations = [(''/in/b.mp3'', ''/out/b.m4b'')]\<rparr>)
   \<and> process_single_file
        (\<lambda>f. if f = ''/in/a.mp3'' then ''/out/a.m4b'' else ''/out/b.m4b'')
        (\<lambda>i out files. (True, files(out \<mapsto> ''audio'')))
        ''/in/a.mp3''
        \<lparr>rs_files = [''/out/a.m4b'' \<mapsto> ''old''], rs_invocations = []\<rparr>
      = ((False, ''/in/a.mp3''),
         \<lparr>rs_files = [''/out/a.m4b'' \<mapsto> ''old''], rs_invocations = []\<rparr>)
   \<and> (2::nat) = length (filter supported_format [''/in/a.mp3'', ''/in/b.mp3'', ''/in/notes.txt''])"
proof -
  let ?out = "\<lambda>f. if f = ''/in/a.mp3'' then ''/out/a.m4b'' else ''/out/b.m4b''"
  let ?ff = "\<lambda>i out (files :: string \<rightharpoonup> string). (True, files(out \<mapsto> ''audio''))"
  let ?m = "[''/in/a.mp3'', ''/in/b.mp3'', ''/in/notes.txt'']"
  let ?st = "\<lparr>rs_files = [''/out/a.m4b'' \<mapsto> ''old''], rs_invocations = []\<rparr>"
  let ?st' = "\<lparr>rs_files = [''/out/a.m4b'' \<mapsto> ''old'', ''/out/b.m4b'' \<mapsto> ''audio''],
            rs_invocations = [(''/in/b.mp3'', ''/out/b.m4b'')]\<rparr>"
  have sf: "supported_format ''/in/a.mp3''" "supported_format ''/in/b.mp3''"
    "\<not> supported_format ''/in/notes.txt''"
    by code_simp+
  have w: "writes_only_output ?ff"
    by (simp add: writes_only_output_def)
  have h: "convert_all_to_m4b True ?out ?ff ?m ?st = ((1, 2), ?st')"
    by (simp add: convert_all_to_m4b_def process_single_file_def convert_to_m4b_def Let_def sf)
  note t = existing_output_counts_as_failure [of ?st ?out "''/in/a.mp3''" ?ff ?m 1 2 ?st']
  have p: "process_single_file ?out ?ff ''/in/a.mp3'' ?st = ((False, ''/in/a.mp3''), ?st)"
    using conjunct1 [OF t] by simp
  have n: "(2::nat) = length (filter supported_format ?m)"
    using conjunct2 [OF t] w h by blast
  show ?thesis by (intro conjI w h p n)
qed

section \<open>Properties of the CSV manifest parser\<close>

lemma foldl_zip_update:
  "foldl (\<lambda>d (key, v). d(key \<mapsto> Some v)) d0 kvs k =
     (case map_of (rev kvs) k of None \<Rightarrow> d0 k | Some v \<Rightarrow> Some (Some v))"
proof (induction kvs arbitrary: d0)
  case Nil
  then show ?case by simp
next
  case (Cons kv kvs)
  obtain k1 v1 where kv: "kv = (k1, v1)" by (cases kv)
  have "foldl (\<lambda>d (key, v). d(key \<mapsto> Some v)) d0 (kv # kvs) k
      = foldl (\<lambda>d (key, v). d(key \<mapsto> Some v)) (d0(k1 \<mapsto> Some v1)) kvs k"
    by (simp only: kv foldl.simps prod.case)
  also have "\<dots> = (case map_of (rev kvs) k of
                      None \<Rightarrow> (d0(k1 \<mapsto> Some v1)) k | Some v \<Rightarrow> Some (Some v))"
    by (rule Cons.IH)
  also have "\<dots> = (case map_of (rev (kv # kvs)) k of
                      None \<Rightarrow> d0 k | Some v \<Rightarrow> Some (Some v))"
    by (simp add: kv map_add_def split: option.splits)
  finally show ?case .
qed

lemma row_dict_complete:
  assumes "length fieldnames \<le> length row"
  shows "row_dict fieldnames row k \<noteq> Some None"
    and "k \<in> set fieldnames \<Longrightarrow> row_dict fieldnames row k \<noteq> None"
proof -
  have d: "row_dict fieldnames row k =
      (case map_of (rev (zip fieldnames row)) k of None \<Rightarrow> None | Some v \<Rightarrow> Some (Some v))"
    using assms by (simp add: row_dict_def foldl_zip_update)
  show "row_dict fieldnames row k \<noteq> Some None"
    by (simp add: d split: option.splits)
  assume "k \<in> set fieldnames"
  moreover have "map fst (zip fieldnames row) = fieldnames"
    using assms by (simp add: map_fst_zip_take)
  ultimately have "k \<in> fst ` set (rev (zip fieldnames row))"
    by (metis list.set_map set_rev)
  then have "map_of (rev (zip fieldnames row)) k \<noteq> None"
    by (simp add: map_of_eq_None_iff)
  then show "row_dict fieldnames row k \<noteq> None"
    by (simp add: d split: option.splits)
qed

lemma parse_rows_complete:
  assumes "complete_rows fieldnames rows"
  shows "\<exists>w. parse_rows env fieldnames rows file_list warnings
              = Inr (file_list @ valid_entries env fieldnames rows, warnings @ w)
            \<and> length w = length (skipped_rows env fieldnames rows)"
  using assms
proof (induction rows arbitrary: file_list warnings)
  case Nil
  then show ?case by (simp add: valid_entries_def skipped_rows_def)
next
  case (Cons row rows)
  from Cons.prems have f: "''file'' \<in> set fieldnames"
    and r: "row = [] \<or> length fieldnames \<le> length row"
    and rest: "complete_rows fieldnames rows"
    by (simp_all add: complete_rows_def)
  note ih = Cons.IH [OF rest]
  show ?case
  proof (cases "row = []")
    case True
    with ih [of file_list warnings] show ?thesis
      by (simp add: valid_entries_def skipped_rows_def row_valid_def row_named_def)
  next
    case False
    with r have len: "length fieldnames \<le> length row" by simp
    from row_dict_complete [OF len] f obtain raw where
      raw: "row_dict fieldnames row ''file'' = Some (Some raw)"
      by (metis option.exhaust)
    have rf: "row_file fieldnames row = strip raw"
      by (simp add: row_file_def raw)
    have ti: "row_dict fieldnames row ''title'' \<noteq> Some None"
      by (rule row_dict_complete(1) [OF len])
    let ?p = "resolve_path env (strip raw)"
    consider (blank) "strip raw = []"
      | (missing) "strip raw \<noteq> []" "\<not> env_exists env ?p"
      | (other) "strip raw \<noteq> []" "env_exists env ?p" "\<not> accepted_container ?p"
      | (valid) "strip raw \<noteq> []" "env_exists env ?p" "accepted_container ?p"
      by blast
    then show ?thesis
    proof cases
      case blank
      with ih [of file_list warnings] False raw rf show ?thesis
        by (simp add: valid_entries_def skipped_rows_def row_valid_def row_named_def)
    next
      case missing
      from ih [of file_list "warnings @ [''File not found: '' @ ?p]"] obtain w where
        w: "parse_rows env fieldnames rows file_list (warnings @ [''File not found: '' @ ?p])
              = Inr (file_list @ valid_entries env fieldnames rows,
                     (warnings @ [''File not found: '' @ ?p]) @ w)"
          "length w = length (skipped_rows env fieldnames rows)"
        by blast
      with missing False raw rf show ?thesis
        by (intro exI [of _ "(''File not found: '' @ ?p) # w"])
          (simp add: valid_entries_def skipped_rows_def row_valid_def row_named_def Let_def)
    next
      case other
      from ih [of file_list "warnings @ [''Skipping non-M4B file: '' @ ?p]"] obtain w where
        w: "parse_rows env fieldnames rows file_list
              (warnings @ [''Skipping non-M4B file: '' @ ?p])
              = Inr (file_list @ valid_entries env fieldnames rows,
                     (warnings @ [''Skipping non-M4B file: '' @ ?p]) @ w)"
          "length w = length (skipped_rows env fieldnames rows)"
        by blast
      with other False raw rf show ?thesis
        by (intro exI [of _ "(''Skipping non-M4B file: '' @ ?p) # w"])
          (simp add: valid_entries_def skipped_rows_def row_valid_def row_named_def Let_def)
    next
      case valid
      from ih [of "file_list @ [row_entry env fieldnames row]" warnings] obtain w where
        w: "parse_rows env fieldnames rows (file_list @ [row_entry env fieldnames row]) warnings
              = Inr ((file_list @ [row_entry env fieldnames row])
                       @ valid_entries env fieldnames rows, warnings @ w)"
          "length w = length (skipped_rows env fieldnames rows)"
        by blast
      with valid False raw rf ti show ?thesis
        by (intro exI [of _ w])
          (auto simp: valid_entries_def skipped_rows_def row_valid_def row_named_def Let_def
             row_entry_def split: option.splits)
    qed
  qed
qed

text \<open>
  The fatal conditions of the parser, for a manifest whose records are complete.  With
  no line left after the directives the error is \<open>No data rows found in CSV file\<close>, with
  only blank lines left it is \<open>No non-empty data rows found in CSV file\<close>.  Otherwise the
  rows that name a file that is missing or has another extension are skipped, each with
  one warning, and the parser goes on: it returns the valid entries in the order of the
  rows, and it raises \<open>No valid M4B files found in CSV\<close> exactly when there is none.
\<close>

theorem parse_csv_input_complete_rows:
  assumes "scan_metadata 0 lines Map.empty 0 = (metadata, idx)"
  shows
    "(drop idx lines = [] \<longrightarrow>
        parse_csv_input env (Some lines) = Inl (ValueError ''No data rows found in CSV file''))
     \<and> (drop idx lines \<noteq> [] \<and> filter (\<lambda>line. strip line \<noteq> []) (drop idx lines) = [] \<longrightarrow>
        parse_csv_input env (Some lines)
          = Inl (ValueError ''No non-empty data rows found in CSV file''))
     \<and> (filter (\<lambda>line. strip line \<noteq> []) (drop idx lines) \<noteq> []
        \<and> env_reader env (filter (\<lambda>line. strip line \<noteq> []) (drop idx lines)) = fieldnames # rows
        \<and> complete_rows fieldnames rows \<longrightarrow>
        (if valid_entries env fieldnames rows = []
         then parse_csv_input env (Some lines)
                = Inl (ValueError ''No valid M4B files found in CSV'')
         else \<exists>w. parse_csv_input env (Some lines)
                    = Inr ((valid_entries env fieldnames rows, metadata), w)
                  \<and> length w = length (skipped_rows env fieldnames rows)))"
proof (intro conjI impI)
  assume "drop idx lines = []"
  then show "parse_csv_input env (Some lines) = Inl (ValueError ''No data rows found in CSV file'')"
    by (simp add: parse_csv_input_def assms)
next
  assume "drop idx lines \<noteq> [] \<and> filter (\<lambda>line. strip line \<noteq> []) (drop idx lines) = []"
  then show "parse_csv_input env (Some lines)
          = Inl (ValueError ''No non-empty data rows found in CSV file'')"
    by (simp add: parse_csv_input_def assms Let_def)
next
  let ?data = "filter (\<lambda>line. strip line \<noteq> []) (drop idx lines)"
  assume a: "?data \<noteq> [] \<and> env_reader env ?data = fieldnames # rows
        \<and> complete_rows fieldnames rows"
  then have nonempty: "drop idx lines \<noteq> []" by auto
  from a obtain w where
    w: "parse_rows env fieldnames rows [] [] = Inr ([] @ valid_entries env fieldnames rows, [] @ w)"
      "length w = length (skipped_rows env fieldnames rows)"
    using parse_rows_complete [of fieldnames rows env "[]" "[]"] by blast
  have p: "parse_csv_input env (Some lines) =
      (if valid_entries env fieldnames rows = []
       then Inl (ValueError ''No valid M4B files found in CSV'')
       else Inr ((valid_entries env fieldnames rows, metadata), w))"
    using a nonempty w(1) by (simp add: parse_csv_input_def assms Let_def)
  show "if valid_entries env fieldnames rows = []
         then parse_csv_input env (Some lines)
                = Inl (ValueError ''No valid M4B files found in CSV'')
         else \<exists>w. parse_csv_input env (Some lines)
                    = Inr ((valid_entries env fieldnames rows, metadata), w)
                  \<and> length w = length (skipped_rows env fieldnames rows)"
    using p w(2) by auto
qed

theorem parse_csv_input_complete_rows_witness:
  "map_sum id (\<lambda>r. (fst (fst r), snd (fst r) ''title'', length (snd r)))
     (parse_csv_input
        \<lparr>env_exists = (\<lambda>p. p \<noteq> ''/books/missing.m4b''), env_abspath = (\<lambda>p. p),
           env_csv_dir = ''/books'', env_reader = unquoted_reader\<rparr>
        (Some [''#title,My Book'' @ nl, nl, ''file,title'' @ nl, ''a.m4b,Intro'' @ nl,
               ''missing.m4b,Gone'' @ nl]))
   = Inr ([\<lparr>entry_file = ''/books/a.m4b'', entry_title = ''Intro''\<rparr>], Some ''My Book'', 1)
   \<and> parse_csv_input
        \<lparr>env_exists = (\<lambda>p. p \<noteq> ''/books/missing.m4b''), env_abspath = (\<lambda>p. p),
           env_csv_dir = ''/books'', env_reader = unquoted_reader\<rparr>
        (Some [''#title,My Book'' @ nl, nl])
      = Inl (ValueError ''No non-empty data rows found in CSV file'')"
proof -
  let ?env = "\<lparr>env_exists = (\<lambda>p. p \<noteq> ''/books/missing.m4b''), env_abspath = (\<lambda>p. p),
           env_csv_dir = ''/books'', env_reader = unquoted_reader\<rparr>"
  let ?lines = "[''#title,My Book'' @ nl, nl, ''file,title'' @ nl, ''a.m4b,Intro'' @ nl,
               ''missing.m4b,Gone'' @ nl]"
  let ?short = "[''#title,My Book'' @ nl, nl]"
  let ?fields = "[''file'', ''title'']"
  let ?rows = "[[''a.m4b'', ''Intro''], [''missing.m4b'', ''Gone'']]"
  have i: "snd (scan_metadata 0 ?lines Map.empty 0) = 1"
    by code_simp
  have t: "fst (scan_metadata 0 ?lines Map.empty 0) ''title'' = Some ''My Book''"
    by code_simp
  have s: "scan_metadata 0 ?lines Map.empty 0 = (fst (scan_metadata 0 ?lines Map.empty 0), 1)"
    using i by (metis prod.collapse)
  have d: "filter (\<lambda>line. strip line \<noteq> []) (drop 1 ?lines)
      = [''file,title'' @ nl, ''a.m4b,Intro'' @ nl, ''missing.m4b,Gone'' @ nl]"
    by code_simp
  have r: "env_reader ?env [''file,title'' @ nl, ''a.m4b,Intro'' @ nl, ''missing.m4b,Gone'' @ nl]
      = ?fields # ?rows"
    by code_simp
  have c: "complete_rows ?fields ?rows"
    by code_simp
  have v: "valid_entries ?env ?fields ?rows
      = [\<lparr>entry_file = ''/books/a.m4b'', entry_title = ''Intro''\<rparr>]"
    by code_simp
  have k: "length (skipped_rows ?env ?fields ?rows) = 1"
    by code_simp
  note pc = parse_csv_input_complete_rows [OF s, of ?env ?fields ?rows]
  from conjunct2 [OF conjunct2 [OF pc]] d r c v k obtain w where
    "parse_csv_input ?env (Some ?lines)
       = Inr (([\<lparr>entry_file = ''/books/a.m4b'', entry_title = ''Intro''\<rparr>],
               fst (scan_metadata 0 ?lines Map.empty 0)), w)" "length w = 1"
    by auto
  then have a: "map_sum id (\<lambda>r. (fst (fst r), snd (fst r) ''title'', length (snd r)))
     (parse_csv_input ?env (Some ?lines))
   = Inr ([\<lparr>entry_file = ''/books/a.m4b'', entry_title = ''Intro''\<rparr>], Some ''My Book'', 1)"
    using t by simp
  have i': "snd (scan_metadata 0 ?short Map.empty 0) = 1"
    by code_simp
  have s': "scan_metadata 0 ?short Map.empty 0 = (fst (scan_metadata 0 ?short Map.empty 0), 1)"
    using i' by (metis prod.collapse)
  have d': "filter (\<lambda>line. strip line \<noteq> []) (drop 1 ?short) = []"
    by code_simp
  have b: "parse_csv_input ?env (Some ?short)
      = Inl (ValueError ''No non-empty data rows found in CSV file'')"
    using conjunct1 [OF conjunct2 [OF parse_csv_input_complete_rows [OF s', of ?env]]] d'
    by simp
  show ?thesis by (intro conjI a b)
qed

text \<open>
  C9 fails on a record that is shorter than the header.  With the header \<open>file,title\<close>, a
  row \<open>b.m4b\<close> without a comma has \<open>None\<close> for its title: \<open>row.get('title', '')\<close> returns
  \<open>None\<close>, \<open>.strip()\<close> raises \<open>AttributeError\<close>, and the parser stops although the manifest
  has data rows and a valid entry before that row.  Without that row the same manifest
  gives its entry.  \<open>combine_m4b_files\<close> catches \<open>FileNotFoundError\<close> and \<open>ValueError\<close>
  only, so the error leaves it.
\<close>

theorem parse_csv_input_short_row:
  "map_sum id (\<lambda>r. fst (fst r))
     (parse_csv_input
        \<lparr>env_exists = (\<lambda>p. True), env_abspath = (\<lambda>p. p),
           env_csv_dir = ''/books'', env_reader = unquoted_reader\<rparr>
        (Some [''file,title'' @ nl, ''a.m4b,Intro'' @ nl, ''b.m4b'' @ nl]))
   = Inl AttributeError
   \<and> map_sum id (\<lambda>r. fst (fst r))
     (parse_csv_input
        \<lparr>env_exists = (\<lambda>p. True), env_abspath = (\<lambda>p. p),
           env_csv_dir = ''/books'', env_reader = unquoted_reader\<rparr>
        (Some [''file,title'' @ nl, ''a.m4b,Intro'' @ nl]))
   = Inr [\<lparr>entry_file = ''/books/a.m4b'', entry_title = ''Intro''\<rparr>]
   \<and> select_inputs (Some (Inl AttributeError)) None [] (\<lambda>p. p) (Some ''/o/book.m4b'') None
   = Inl AttributeError"
proof -
  have a: "map_sum id (\<lambda>r. fst (fst r))
     (parse_csv_input
        \<lparr>env_exists = (\<lambda>p. True), env_abspath = (\<lambda>p. p),
           env_csv_dir = ''/books'', env_reader = unquoted_reader\<rparr>
        (Some [''file,title'' @ nl, ''a.m4b,Intro'' @ nl, ''b.m4b'' @ nl]))
   = Inl AttributeError"
    by code_simp
  have b: "map_sum id (\<lambda>r. fst (fst r))
     (parse_csv_input
        \<lparr>env_exists = (\<lambda>p. True), env_abspath = (\<lambda>p. p),
           env_csv_dir = ''/books'', env_reader = unquoted_reader\<rparr>
        (Some [''file,title'' @ nl, ''a.m4b,Intro'' @ nl]))
   = Inr [\<lparr>entry_file = ''/books/a.m4b'', entry_title = ''Intro''\<rparr>]"
    by code_simp
  have c: "select_inputs (Some (Inl AttributeError)) None [] (\<lambda>p. p) (Some ''/o/book.m4b'') None
   = Inl AttributeError"
    by (simp add: select_inputs_def)
  show ?thesis by (intro conjI a b c)
qed

end
